theory Spec2Isabelle
  imports Complex_Main "HOL-Library.Log_Nat" "HOL-Library.Multiset"
begin

section \<open>JavaScript numbers\<close>

text \<open>
  Every number of the page script is an IEEE 754 binary64 value. \<open>Fin x\<close> is the finite
  double whose exact value is the real \<open>x\<close>; the two infinities and NaN are constructors
  of their own. Negative zero is identified with zero: the script never divides by a
  computed zero (the divisors are \<open>vals.length\<close>, \<open>vals.length - 1\<close> and a standard
  deviation that was compared with 0 first) and never inspects the sign of a zero.
\<close>

datatype number = Fin real | PosInf | NegInf | NaN

text \<open>\<open>ilog2 x\<close> is the binary exponent of a positive real: \<open>2 powi ilog2 x \<le> x < 2 powi (ilog2 x + 1)\<close>.\<close>

definition ilog2 :: "real \<Rightarrow> int" where
  "ilog2 x = (if 1 \<le> x then bitlen \<lfloor>x\<rfloor> - 1 else - bitlen (\<lceil>1 / x\<rceil> - 1))"

text \<open>Rounding to the nearest integer, ties to the even one.\<close>

definition round_even :: "real \<Rightarrow> int" where
  "round_even x = (let f = \<lfloor>x\<rfloor>; d = x - of_int f in
     if d < 1 / 2 then f else if 1 / 2 < d then f + 1 else if even f then f else f + 1)"

text \<open>
  The exponent of the unit in the last place of the double nearest to \<open>x\<close>: 53 significant
  bits, and never below the subnormal spacing \<open>2 powi - 1074\<close>.
\<close>

definition quantum :: "real \<Rightarrow> int" where
  "quantum x = max (ilog2 \<bar>x\<bar> - 52) (- 1074)"

text \<open>
  Round-to-nearest, ties-to-even, of an exact real result into binary64; a result of
  magnitude \<open>2 ^ 1024\<close> or more after rounding overflows to an infinity.
\<close>

definition round64 :: "real \<Rightarrow> number" where
  "round64 x = (if x = 0 then Fin 0 else
     let e = quantum x; r = of_int (round_even (x / 2 powi e)) * 2 powi e in
     if 2 ^ 1024 \<le> \<bar>r\<bar> then (if 0 < x then PosInf else NegInf) else Fin r)"

fun fneg :: "number \<Rightarrow> number" where
  "fneg (Fin a) = Fin (- a)"
| "fneg PosInf = NegInf"
| "fneg NegInf = PosInf"
| "fneg NaN = NaN"

text \<open>The operator \<open>+\<close> on two numbers.\<close>

fun fadd :: "number \<Rightarrow> number \<Rightarrow> number" where
  "fadd NaN _ = NaN"
| "fadd _ NaN = NaN"
| "fadd PosInf NegInf = NaN"
| "fadd NegInf PosInf = NaN"
| "fadd PosInf _ = PosInf"
| "fadd NegInf _ = NegInf"
| "fadd _ PosInf = PosInf"
| "fadd _ NegInf = NegInf"
| "fadd (Fin a) (Fin b) = round64 (a + b)"

text \<open>The operator \<open>-\<close> on two numbers.\<close>

definition fsub :: "number \<Rightarrow> number \<Rightarrow> number" where
  "fsub a b = fadd a (fneg b)"

text \<open>The operator \<open>*\<close> on two numbers.\<close>

fun fmul :: "number \<Rightarrow> number \<Rightarrow> number" where
  "fmul NaN _ = NaN"
| "fmul _ NaN = NaN"
| "fmul (Fin a) (Fin b) = round64 (a * b)"
| "fmul (Fin a) PosInf = (if a = 0 then NaN else if 0 < a then PosInf else NegInf)"
| "fmul (Fin a) NegInf = (if a = 0 then NaN else if 0 < a then NegInf else PosInf)"
| "fmul PosInf (Fin b) = (if b = 0 then NaN else if 0 < b then PosInf else NegInf)"
| "fmul NegInf (Fin b) = (if b = 0 then NaN else if 0 < b then NegInf else PosInf)"
| "fmul PosInf PosInf = PosInf"
| "fmul PosInf NegInf = NegInf"
| "fmul NegInf PosInf = NegInf"
| "fmul NegInf NegInf = PosInf"

text \<open>
  The operator \<open>/\<close> on two numbers. A zero divisor is taken as positive zero, which is
  the only zero the script can divide by (an array length).
\<close>

fun fdiv :: "number \<Rightarrow> number \<Rightarrow> number" where
  "fdiv NaN _ = NaN"
| "fdiv _ NaN = NaN"
| "fdiv (Fin a) (Fin b) =
     (if b = 0 then (if a = 0 then NaN else if 0 < a then PosInf else NegInf)
      else round64 (a / b))"
| "fdiv (Fin a) PosInf = Fin 0"
| "fdiv (Fin a) NegInf = Fin 0"
| "fdiv PosInf (Fin b) = (if 0 \<le> b then PosInf else NegInf)"
| "fdiv NegInf (Fin b) = (if 0 \<le> b then NegInf else PosInf)"
| "fdiv PosInf PosInf = NaN"
| "fdiv PosInf NegInf = NaN"
| "fdiv NegInf PosInf = NaN"
| "fdiv NegInf NegInf = NaN"

text \<open>\<open>x ** 2\<close>, taken as the square rounded once.\<close>

definition fsquare :: "number \<Rightarrow> number" where
  "fsquare x = fmul x x"

text \<open>
  The integer square root by bisection on the bits: \<open>isqrt_aux n r b\<close> extends the
  approximation \<open>r\<close> with the bits of weight \<open>b\<close>, \<open>b div 2\<close>, ... , 1.
\<close>

function isqrt_aux :: "int \<Rightarrow> int \<Rightarrow> int \<Rightarrow> int" where
  "isqrt_aux n r b =
     (if b \<le> 0 then r
      else if (r + b) * (r + b) \<le> n then isqrt_aux n (r + b) (b div 2)
      else isqrt_aux n r (b div 2))"
  by pat_completeness auto
termination
  by (relation "measure (\<lambda>(n, r, b). nat b)") auto

declare isqrt_aux.simps [simp del]

definition isqrt :: "int \<Rightarrow> int" where
  "isqrt n = isqrt_aux n 0 (2 ^ nat ((bitlen n + 1) div 2))"

text \<open>
  \<open>Math.sqrt\<close>: the correctly rounded square root. For \<open>0 < x\<close> the root lies in
  \<open>[2 powi (k + 52), 2 powi (k + 53))\<close> with \<open>k = ilog2 x div 2 - 52\<close>, so it is
  \<open>m * 2 powi k\<close> for the integer \<open>m\<close> nearest to the root of \<open>y = x / 2 powi (2 * k)\<close>;
  \<open>m\<close> is found from the integer root \<open>f\<close> of \<open>\<lfloor>y\<rfloor>\<close> by comparing \<open>y\<close> with
  \<open>(f + 1/2)\<^sup>2\<close>. A square root neither overflows nor becomes subnormal.
\<close>

definition sqrt_mantissa :: "real \<Rightarrow> int" where
  "sqrt_mantissa y = (let f = isqrt \<lfloor>y\<rfloor>; h = (of_int f + 1 / 2) * (of_int f + 1 / 2) in
     if y < h then f else if h < y then f + 1 else if even f then f else f + 1)"

fun fsqrt :: "number \<Rightarrow> number" where
  "fsqrt NaN = NaN"
| "fsqrt PosInf = PosInf"
| "fsqrt NegInf = NaN"
| "fsqrt (Fin x) =
     (if x < 0 then NaN else if x = 0 then Fin 0
      else let k = ilog2 x div 2 - 52 in
        Fin (of_int (sqrt_mantissa (x / 2 powi (2 * k))) * 2 powi k))"

text \<open>Order tests on numbers (every comparison with NaN is false), and finiteness.\<close>

fun positive :: "number \<Rightarrow> bool" where
  "positive (Fin x) = (0 < x)"
| "positive PosInf = True"
| "positive _ = False"

fun nonneg :: "number \<Rightarrow> bool" where
  "nonneg (Fin x) = (0 \<le> x)"
| "nonneg PosInf = True"
| "nonneg _ = False"

fun nonpos :: "number \<Rightarrow> bool" where
  "nonpos (Fin x) = (x \<le> 0)"
| "nonpos NegInf = True"
| "nonpos _ = False"

fun is_finite :: "number \<Rightarrow> bool" where
  "is_finite (Fin x) = True"
| "is_finite _ = False"

text \<open>Strict equality \<open>===\<close> of two numbers: NaN equals nothing.\<close>

definition strict_equals :: "number \<Rightarrow> number \<Rightarrow> bool" where
  "strict_equals a b = (a \<noteq> NaN \<and> b \<noteq> NaN \<and> a = b)"

text \<open>A number or \<open>null\<close> used as an operand of arithmetic: \<open>null\<close> converts to 0.\<close>

fun to_num :: "number option \<Rightarrow> number" where
  "to_num None = Fin 0"
| "to_num (Some x) = x"

section \<open>JavaScript values in a data series\<close>

datatype jsval = JNumber number | JNull | JUndefined | JBoolean bool | JString string

fun typeof :: "jsval \<Rightarrow> string" where
  "typeof (JNumber _) = ''number''"
| "typeof JNull = ''object''"
| "typeof JUndefined = ''undefined''"
| "typeof (JBoolean _) = ''boolean''"
| "typeof (JString _) = ''string''"

fun Number_isNaN :: "jsval \<Rightarrow> bool" where
  "Number_isNaN (JNumber x) = (x = NaN)"
| "Number_isNaN _ = False"

fun Number_isFinite :: "jsval \<Rightarrow> bool" where
  "Number_isFinite (JNumber x) = is_finite x"
| "Number_isFinite _ = False"

text \<open>A field that holds a number or \<open>null\<close>, as a value.\<close>

fun js_of :: "number option \<Rightarrow> jsval" where
  "js_of None = JNull"
| "js_of (Some x) = JNumber x"

text \<open>The numeric payload of an entry; only entries of type number are ever added up.\<close>

fun number_of :: "jsval \<Rightarrow> number" where
  "number_of (JNumber x) = x"
| "number_of _ = NaN"

section \<open>The helpers of function1.js\<close>

record slice_result =
  fromIdx :: int
  toIdx :: int

text \<open>\<open>Array.prototype.indexOf\<close>: the first index holding a strictly equal element, or -1.\<close>

fun indexOf_from :: "number list \<Rightarrow> number \<Rightarrow> int \<Rightarrow> int" where
  "indexOf_from [] x i = - 1"
| "indexOf_from (y # ys) x i = (if strict_equals y x then i else indexOf_from ys x (i + 1))"

definition indexOf :: "number list \<Rightarrow> number \<Rightarrow> int" where
  "indexOf xs x = indexOf_from xs x 0"

definition sliceByYearRange :: "number list \<Rightarrow> number \<Rightarrow> number \<Rightarrow> slice_result option" where
  "sliceByYearRange years fromYear toYear =
     (let fromIdx = indexOf years fromYear;
          toIdx = indexOf years toYear
      in if fromIdx = - 1 \<or> toIdx = - 1 \<or> fromIdx > toIdx then None
         else Some \<lparr>fromIdx = fromIdx, toIdx = toIdx\<rparr>)"

text \<open>The filter of \<open>mean\<close> and \<open>stdDev\<close>: \<open>typeof v === "number" && !Number.isNaN(v)\<close>.\<close>

definition is_valid :: "jsval \<Rightarrow> bool" where
  "is_valid v = (typeof v = ''number'' \<and> \<not> Number_isNaN v)"

definition mean :: "jsval list \<Rightarrow> number option" where
  "mean arr =
     (let vals = filter is_valid arr
      in if length vals = 0 then None
         else Some (fdiv (foldl (\<lambda>a b. fadd a (number_of b)) (Fin 0) vals)
                         (Fin (of_nat (length vals)))))"

definition stdDev :: "jsval list \<Rightarrow> number option" where
  "stdDev arr =
     (let vals = filter is_valid arr
      in if length vals < 2 then None
         else let m = mean vals;
                  variance = fdiv (foldl (\<lambda>acc v. fadd acc (fsquare (fsub (number_of v) (to_num m))))
                                         (Fin 0) vals)
                                  (Fin (of_nat (length vals - 1)))
              in Some (fsqrt variance))"

record dataset =
  label :: string
  data :: "jsval list"

record group_stats =
  group :: string
  mean_value :: "number option"
  std :: "number option"
  stability :: "number option"

record stability_result =
  stats :: "group_stats list"
  ranked :: "group_stats list"

text \<open>
  \<open>Array.prototype.sort\<close> with a comparator is stable, and on a consistent comparator
  its result is the one stable ordering; insertion from the right computes it. An
  element goes behind \<open>y\<close> exactly when the comparator's result is greater than 0.
\<close>

fun insert_by :: "('a \<Rightarrow> 'a \<Rightarrow> number) \<Rightarrow> 'a \<Rightarrow> 'a list \<Rightarrow> 'a list" where
  "insert_by cmp x [] = [x]"
| "insert_by cmp x (y # ys) =
     (if positive (cmp x y) then y # insert_by cmp x ys else x # y # ys)"

definition sort_by :: "('a \<Rightarrow> 'a \<Rightarrow> number) \<Rightarrow> 'a list \<Rightarrow> 'a list" where
  "sort_by cmp xs = foldr (insert_by cmp) xs []"

text \<open>The predicate of the ranking filter and the comparator of the ranking sort.\<close>

definition rankable :: "group_stats \<Rightarrow> bool" where
  "rankable r = (stability r \<noteq> None \<and> \<not> Number_isNaN (js_of (stability r))
     \<and> Number_isFinite (js_of (stability r)))"

definition by_stability_desc :: "group_stats \<Rightarrow> group_stats \<Rightarrow> number" where
  "by_stability_desc a b = fsub (to_num (stability b)) (to_num (stability a))"

definition group_stats_of :: "dataset \<Rightarrow> group_stats" where
  "group_stats_of ds =
     (let m = mean (data ds);
          s = stdDev (data ds);
          idx = (if m \<noteq> None \<and> s \<noteq> None \<and> s \<noteq> Some (Fin 0)
                 then Some (fdiv (to_num m) (to_num s)) else None)
      in \<lparr>group = label ds, mean_value = m, std = s, stability = idx\<rparr>)"

definition computeStabilityFromLineDatasets ::
  "number list \<Rightarrow> dataset list \<Rightarrow> stability_result" where
  "computeStabilityFromLineDatasets years datasets =
     (let stats = map group_stats_of datasets;
          ranked = sort_by by_stability_desc (filter rankable stats)
      in \<lparr>stats = stats, ranked = ranked\<rparr>)"

section \<open>The range filter and the three chart views\<close>

text \<open>
  \<open>Array.prototype.slice\<close>: a negative bound counts from the end, and both bounds are
  clamped to the array.
\<close>

definition slice :: "'a list \<Rightarrow> int \<Rightarrow> int \<Rightarrow> 'a list" where
  "slice xs start stop =
     (let len = int (length xs);
          k = (if start < 0 then max (len + start) 0 else min start len);
          final = (if stop < 0 then max (len + stop) 0 else min stop len)
      in take (nat (final - k)) (drop (nat k) xs))"

text \<open>
  \<open>Number(x.toFixed(3))\<close> on a number: \<open>toFixed\<close> prints the integer \<open>n\<close> nearest to
  \<open>1000 * \<bar>x\<bar>\<close> (the larger one on a tie) as a decimal with three places, and the
  plain value itself from \<open>10 ^ 21\<close> on; \<open>Number\<close> reads the decimal back.
\<close>

fun toFixed3 :: "number \<Rightarrow> number" where
  "toFixed3 NaN = NaN"
| "toFixed3 PosInf = PosInf"
| "toFixed3 NegInf = NegInf"
| "toFixed3 (Fin x) =
     (if 10 ^ 21 \<le> \<bar>x\<bar> then Fin x
      else round64 (sgn x * of_int \<lfloor>\<bar>x\<bar> * 1000 + 1 / 2\<rfloor> / 1000))"

datatype error = TypeError

text \<open>A method call on \<open>null\<close> throws a TypeError.\<close>

definition toFixed3_of :: "number option \<Rightarrow> error + number" where
  "toFixed3_of v = (case v of None \<Rightarrow> Inl TypeError | Some x \<Rightarrow> Inr (toFixed3 x))"

text \<open>\<open>Array.prototype.map\<close> with a callback that may throw: the first throw ends it.\<close>

fun map_throwing :: "('a \<Rightarrow> error + 'b) \<Rightarrow> 'a list \<Rightarrow> error + 'b list" where
  "map_throwing f [] = Inr []"
| "map_throwing f (x # xs) =
     (case f x of
        Inl e \<Rightarrow> Inl e
      | Inr v \<Rightarrow> (case map_throwing f xs of Inl e \<Rightarrow> Inl e | Inr vs \<Rightarrow> Inr (v # vs)))"

record page_data =
  yearsAll :: "number list"
  lineDatasetsAll :: "dataset list"

record bar_chart =
  bar_labels :: "string list"
  bar_values :: "number list"
  bar_updates :: nat

record scatter_point =
  pt_label :: string
  pt_x :: number
  pt_y :: number

record scatter_chart =
  scatter_points :: "scatter_point list"
  scatter_updates :: nat

record line_dataset = dataset +
  spanGaps :: bool
  tension :: real
  pointRadius :: nat

record line_chart =
  line_labels :: "number list"
  line_datasets :: "line_dataset list"
  line_updates :: nat

text \<open>
  The three charts of the page; each \<open>update()\<close> call is counted, so that a redraw is a
  visible change of the state.
\<close>

record charts =
  barChart :: bar_chart
  scatterChart :: scatter_chart
  lineChart :: line_chart

definition scatter_point_of :: "group_stats \<Rightarrow> error + scatter_point" where
  "scatter_point_of r =
     (case toFixed3_of (mean_value r) of
        Inl e \<Rightarrow> Inl e
      | Inr px \<Rightarrow> (case toFixed3_of (std r) of
          Inl e \<Rightarrow> Inl e
        | Inr py \<Rightarrow> Inr \<lparr>pt_label = group r, pt_x = px, pt_y = py\<rparr>))"

definition line_dataset_of :: "dataset \<Rightarrow> line_dataset" where
  "line_dataset_of ds =
     \<lparr>label = label ds, data = data ds, spanGaps = False, tension = 1 / 4, pointRadius = 3\<rparr>"

text \<open>
  \<open>applyRange\<close>, from the two selected years after their conversion by \<open>Number\<close>. The
  charts are passed in and returned; a thrown error comes with the charts as they were
  when it was thrown.
\<close>

definition applyRange ::
  "page_data \<Rightarrow> number \<Rightarrow> number \<Rightarrow> charts \<Rightarrow> (error \<times> charts) + charts" where
  "applyRange d fromYear toYear cs =
     (case sliceByYearRange (yearsAll d) fromYear toYear of
        None \<Rightarrow> Inr cs
      | Some sl \<Rightarrow>
          (let yearsFiltered = slice (yearsAll d) (fromIdx sl) (toIdx sl + 1);
               lineFiltered = map (\<lambda>ds. \<lparr>label = label ds,
                                          data = slice (data ds) (fromIdx sl) (toIdx sl + 1)\<rparr>)
                                  (lineDatasetsAll d);
               res = computeStabilityFromLineDatasets yearsFiltered lineFiltered;
               cs1 = cs\<lparr>barChart := (barChart cs)\<lparr>bar_labels := map group (ranked res)\<rparr>\<rparr>
           in (case map_throwing (\<lambda>r. toFixed3_of (stability r)) (ranked res) of
                 Inl e \<Rightarrow> Inl (e, cs1)
               | Inr vs \<Rightarrow>
                   (let cs2 = cs1\<lparr>barChart := (barChart cs1)
                                  \<lparr>bar_values := vs,
                                   bar_updates := Suc (bar_updates (barChart cs1))\<rparr>\<rparr>
                    in (case map_throwing scatter_point_of
                               (filter (\<lambda>r. mean_value r \<noteq> None \<and> std r \<noteq> None) (stats res)) of
                          Inl e \<Rightarrow> Inl (e, cs2)
                        | Inr pts \<Rightarrow>
                            (let cs3 = cs2\<lparr>scatterChart := (scatterChart cs2)
                                           \<lparr>scatter_points := pts,
                                            scatter_updates :=
                                              Suc (scatter_updates (scatterChart cs2))\<rparr>\<rparr>
                             in Inr (cs3\<lparr>lineChart := (lineChart cs3)
                                          \<lparr>line_labels := yearsFiltered,
                                           line_datasets := map line_dataset_of lineFiltered,
                                           line_updates :=
                                             Suc (line_updates (lineChart cs3))\<rparr>\<rparr>)))))))"

section \<open>The notions of the specification\<close>

text \<open>
  The valid entries of a series, in the words of the specification: the numbers among
  the entries, NaN left out.
\<close>

fun valid_entries :: "jsval list \<Rightarrow> number list" where
  "valid_entries [] = []"
| "valid_entries (JNumber x # vs) = (if x = NaN then valid_entries vs else x # valid_entries vs)"
| "valid_entries (_ # vs) = valid_entries vs"

text \<open>
  The arithmetic mean and the sample standard deviation with divisor \<open>n - 1\<close>, each
  operation carried out in binary64 and the sums taken from left to right.
\<close>

definition total :: "number list \<Rightarrow> number" where
  "total xs = foldl fadd (Fin 0) xs"

definition arithmetic_mean :: "number list \<Rightarrow> number" where
  "arithmetic_mean xs = fdiv (total xs) (Fin (real (length xs)))"

definition sample_std :: "number list \<Rightarrow> number" where
  "sample_std xs =
     fsqrt (fdiv (total (map (\<lambda>x. fsquare (fsub x (arithmetic_mean xs))) xs))
                 (Fin (real (length xs) - 1)))"

text \<open>A stability that is a finite number, and its value.\<close>

definition finite_stability :: "group_stats \<Rightarrow> bool" where
  "finite_stability r = (\<exists>v. stability r = Some (Fin v))"

definition stability_value :: "group_stats \<Rightarrow> real" where
  "stability_value r = (case stability r of Some (Fin v) \<Rightarrow> v | _ \<Rightarrow> 0)"

text \<open>
  A year is present in a list when some element is strictly equal to it, and \<open>i\<close> is
  its position when \<open>i\<close> is the first such index.
\<close>

definition present :: "number list \<Rightarrow> number \<Rightarrow> bool" where
  "present years y = (\<exists>v\<in>set years. strict_equals v y)"

definition first_position :: "number list \<Rightarrow> number \<Rightarrow> int \<Rightarrow> bool" where
  "first_position years y i =
     (0 \<le> i \<and> nat i < length years \<and> strict_equals (years ! nat i) y
      \<and> (\<forall>j<nat i. \<not> strict_equals (years ! j) y))"

section \<open>Auxiliary notions\<close>

text \<open>
  Every finite double is an integer multiple of the subnormal spacing; two different
  doubles are therefore at least that far apart.
\<close>

definition on_grid :: "real \<Rightarrow> bool" where
  "on_grid r = (\<exists>k::int. r = of_int k * 2 powi (- 1074))"

definition gridded :: "group_stats \<Rightarrow> bool" where
  "gridded r = (\<exists>v. stability r = Some (Fin v) \<and> on_grid v)"

definition nonneg_or_NaN :: "number \<Rightarrow> bool" where
  "nonneg_or_NaN x = (nonneg x \<or> x = NaN)"

section \<open>Example data\<close>

text \<open>
  The scenario of the specification: three years, group A with 90, 92, 94 and group B
  with 80, a missing value, 85. Beside them: a constant group C; group T, the double
  nearest to one tenth three times; group H, a huge value and its negative; group Z, the
  same with a 3 behind them; group I, an infinite value and 1; and charts that were
  never drawn.
\<close>

abbreviation scenario_years :: "number list" where
  "scenario_years \<equiv> [Fin 2020, Fin 2021, Fin 2022]"

abbreviation groupA :: dataset where
  "groupA \<equiv> \<lparr>label = ''A'', data = [JNumber (Fin 90), JNumber (Fin 92), JNumber (Fin 94)]\<rparr>"

abbreviation groupB :: dataset where
  "groupB \<equiv> \<lparr>label = ''B'', data = [JNumber (Fin 80), JNull, JNumber (Fin 85)]\<rparr>"

abbreviation groupC :: dataset where
  "groupC \<equiv> \<lparr>label = ''C'', data = [JNumber (Fin 92), JNumber (Fin 92), JNumber (Fin 92)]\<rparr>"

abbreviation tenth :: number where
  "tenth \<equiv> Fin (3602879701896397 / 2 ^ 55)"

abbreviation groupT :: dataset where
  "groupT \<equiv> \<lparr>label = ''T'', data = [JNumber tenth, JNumber tenth, JNumber tenth]\<rparr>"

abbreviation groupH :: dataset where
  "groupH \<equiv> \<lparr>label = ''H'', data = [JNumber (Fin (2 ^ 600)), JNumber (Fin (- (2 ^ 600)))]\<rparr>"

abbreviation groupI :: dataset where
  "groupI \<equiv> \<lparr>label = ''I'', data = [JNumber PosInf, JNumber (Fin 1)]\<rparr>"

abbreviation groupZ :: dataset where
  "groupZ \<equiv> \<lparr>label = ''Z'',
      data = [JNumber (Fin (2 ^ 600)), JNumber (Fin (- (2 ^ 600))), JNumber (Fin 3)]\<rparr>"

abbreviation scenario_page :: page_data where
  "scenario_page \<equiv> \<lparr>yearsAll = scenario_years, lineDatasetsAll = [groupA, groupB]\<rparr>"

abbreviation blank_charts :: charts where
  "blank_charts \<equiv>
     \<lparr>barChart = \<lparr>bar_labels = [], bar_values = [], bar_updates = 0\<rparr>,
      scatterChart = \<lparr>scatter_points = [], scatter_updates = 0\<rparr>,
      lineChart = \<lparr>line_labels = [], line_datasets = [], line_updates = 0\<rparr>\<rparr>"

section \<open>Properties of the number model\<close>

text \<open>
  The binary exponent is the right one, and rounding to an integer moves a value by at
  most one half and keeps it on its side of every integer.
\<close>

lemma ilog2_lower:
  assumes "0 < x"
  shows "2 powi (ilog2 x) \<le> x"
proof (cases "1 \<le> x")
  case True
  define n where "n = \<lfloor>x\<rfloor>"
  have n: "0 < n" using True by (simp add: n_def)
  have b: "1 \<le> bitlen n" using n by (simp add: bitlen_alt_def)
  have "(2::int) ^ nat (bitlen n - 1) \<le> n" using bitlen_bounds[OF n] by simp
  then have "real_of_int (2 ^ nat (bitlen n - 1)) \<le> of_int n" by linarith
  also have "\<dots> \<le> x" by (simp add: n_def)
  finally have "2 ^ nat (bitlen n - 1) \<le> x" by simp
  moreover have "(2::real) powi (bitlen n - 1) = 2 ^ nat (bitlen n - 1)"
    using b by (simp add: power_int_def)
  ultimately show ?thesis using True by (simp add: ilog2_def n_def)
next
  case False
  define n where "n = \<lceil>1 / x\<rceil>"
  have "1 < 1 / x" using False assms by simp
  then have n: "0 < n - 1" unfolding n_def by linarith
  have b: "0 \<le> bitlen (n - 1)" by (rule bitlen_nonneg)
  have "n - 1 < 2 ^ nat (bitlen (n - 1))" using bitlen_bounds[OF n] by simp
  then have "n \<le> 2 ^ nat (bitlen (n - 1))" by simp
  then have "real_of_int n \<le> real_of_int (2 ^ nat (bitlen (n - 1)))"
    by (simp only: of_int_le_iff)
  moreover have "1 / x \<le> of_int n" by (simp add: n_def)
  ultimately have "1 / x \<le> real_of_int (2 ^ nat (bitlen (n - 1)))" by (rule order_trans[rotated])
  then have "1 / x \<le> 2 ^ nat (bitlen (n - 1))" by simp
  then have "1 / 2 ^ nat (bitlen (n - 1)) \<le> x"
    using assms by (simp add: field_simps)
  moreover have "(2::real) powi (- bitlen (n - 1)) = 1 / 2 ^ nat (bitlen (n - 1))"
    using b by (simp add: power_int_def field_simps)
  ultimately show ?thesis using False by (simp add: ilog2_def n_def)
qed

lemma ilog2_upper:
  assumes "0 < x"
  shows "x < 2 powi (ilog2 x + 1)"
proof (cases "1 \<le> x")
  case True
  define n where "n = \<lfloor>x\<rfloor>"
  have n: "0 < n" using True by (simp add: n_def)
  have b: "1 \<le> bitlen n" using n by (simp add: bitlen_alt_def)
  have "n < 2 ^ nat (bitlen n)" using bitlen_bounds[OF n] by simp
  then have "n + 1 \<le> 2 ^ nat (bitlen n)" by simp
  then have "real_of_int (n + 1) \<le> of_int (2 ^ nat (bitlen n))" by linarith
  moreover have "x < of_int (n + 1)" unfolding n_def by linarith
  ultimately have "x < 2 ^ nat (bitlen n)" by simp
  moreover have "(2::real) powi (bitlen n) = 2 ^ nat (bitlen n)"
    using b by (simp add: power_int_def)
  ultimately show ?thesis using True by (simp add: ilog2_def n_def)
next
  case False
  define n where "n = \<lceil>1 / x\<rceil>"
  have "1 < 1 / x" using False assms by simp
  then have n: "0 < n - 1" unfolding n_def by linarith
  have b: "1 \<le> bitlen (n - 1)" using n by (simp add: bitlen_alt_def)
  have "2 ^ nat (bitlen (n - 1) - 1) \<le> n - 1" using bitlen_bounds[OF n] by simp
  then have "real_of_int (2 ^ nat (bitlen (n - 1) - 1)) \<le> of_int (n - 1)" by linarith
  moreover have "of_int (n - 1) < 1 / x" unfolding n_def by linarith
  ultimately have "2 ^ nat (bitlen (n - 1) - 1) < 1 / x" by simp
  then have "x < 1 / 2 ^ nat (bitlen (n - 1) - 1)"
    using assms by (simp add: field_simps)
  moreover have "(2::real) powi (1 - bitlen (n - 1)) = 1 / 2 ^ nat (bitlen (n - 1) - 1)"
    using b by (simp add: power_int_def field_simps)
  ultimately show ?thesis using False by (simp add: ilog2_def n_def)
qed

lemma round_even_bounds: "\<bar>of_int (round_even x) - x\<bar> \<le> 1 / 2"
  unfolding round_even_def Let_def by (auto simp: abs_le_iff)

lemma round_even_mono_int: "of_int k \<le> x \<Longrightarrow> k \<le> round_even x"
  unfolding round_even_def Let_def by (auto simp: le_floor_iff) linarith+

lemma round_even_mono_int2: "x \<le> of_int k \<Longrightarrow> round_even x \<le> k"
  unfolding round_even_def Let_def by (auto) linarith+

lemma round_even_of_int: "round_even (of_int j) = j"
  by (simp add: round_even_def)

text \<open>
  Rounding into binary64 never gives NaN, keeps the sign, lands on the grid of the
  doubles, and does not flush a value of at least one grid step to zero.
\<close>

lemma round64_not_NaN: "round64 x \<noteq> NaN"
  by (simp add: round64_def Let_def)

lemma round64_zero: "round64 0 = Fin 0"
  by (simp add: round64_def)

lemma nonpos_not_positive: "nonpos n \<Longrightarrow> \<not> positive n"
  by (cases n) auto

lemma round64_nonneg:
  assumes "0 \<le> x"
  shows "nonneg (round64 x)"
proof (cases "x = 0")
  case True
  then show ?thesis by (simp add: round64_def)
next
  case False
  with assms have x: "0 < x" by simp
  have "0 \<le> x / 2 powi quantum x" using x by simp
  then have "0 \<le> round_even (x / 2 powi quantum x)"
    using round_even_mono_int[of 0] by simp
  then have "0 \<le> real_of_int (round_even (x / 2 powi quantum x)) * 2 powi quantum x"
    by simp
  then show ?thesis using x by (simp add: round64_def Let_def)
qed

lemma round64_nonpos:
  assumes "x \<le> 0"
  shows "nonpos (round64 x)"
proof (cases "x = 0")
  case True
  then show ?thesis by (simp add: round64_def)
next
  case False
  with assms have x: "x < 0" by simp
  have "x / 2 powi quantum x \<le> 0" using x by (simp add: divide_nonpos_pos)
  then have "round_even (x / 2 powi quantum x) \<le> 0"
    using round_even_mono_int2[of _ 0] by simp
  then have "real_of_int (round_even (x / 2 powi quantum x)) * 2 powi quantum x \<le> 0"
    by (simp add: mult_nonpos_nonneg)
  then show ?thesis using x by (simp add: round64_def Let_def)
qed

lemma nonneg_Fin_round64: "0 \<le> x \<Longrightarrow> round64 x = Fin r \<Longrightarrow> 0 \<le> r"
  using round64_nonneg[of x] by simp

lemma nonpos_Fin_round64: "x \<le> 0 \<Longrightarrow> round64 x = Fin r \<Longrightarrow> r \<le> 0"
  using round64_nonpos[of x] by simp

lemma on_grid_0: "on_grid 0"
  unfolding on_grid_def by (rule exI[of _ 0]) simp

lemma quantum_ge: "- 1074 \<le> quantum x"
  by (simp add: quantum_def)

lemma round64_grid:
  assumes "round64 x = Fin r"
  shows "on_grid r"
proof (cases "x = 0")
  case True
  with assms show ?thesis by (simp add: round64_def on_grid_0)
next
  case False
  define e where "e = quantum x"
  define m where "m = round_even (x / 2 powi e)"
  have r: "r = of_int m * 2 powi e"
    using assms False by (simp add: round64_def Let_def e_def m_def split: if_splits)
  have e: "- 1074 \<le> e" unfolding e_def by (rule quantum_ge)
  have "(2::real) powi e = 2 powi ((e + 1074) + (- 1074))" by simp
  also have "\<dots> = 2 powi (e + 1074) * 2 powi (- 1074)"
    by (rule power_int_add) simp
  finally have "(2::real) powi e = 2 powi (e + 1074) * 2 powi (- 1074)" .
  also have "(2::real) powi (e + 1074) = of_int (2 ^ nat (e + 1074))"
    using e by (simp add: power_int_def)
  finally have "r = of_int (m * 2 ^ nat (e + 1074)) * 2 powi (- 1074)"
    using r by simp
  then show ?thesis unfolding on_grid_def by blast
qed

lemma round64_positive:
  assumes "2 powi (- 1074) \<le> x"
  shows "positive (round64 x)"
proof -
  have "(0::real) < 2 powi (- 1074)" by simp
  with assms have x: "0 < x" by linarith
  define e where "e = quantum x"
  have pe: "(0::real) < 2 powi e" by simp
  have "2 powi e \<le> x"
  proof (cases "ilog2 x - 52 \<le> - 1074")
    case True
    then have "e = - 1074" using x by (simp add: e_def quantum_def)
    then show ?thesis using assms by simp
  next
    case False
    then have "e = ilog2 x - 52" using x by (simp add: e_def quantum_def)
    then have "(2::real) powi e \<le> 2 powi (ilog2 x)"
      by (simp add: power_int_increasing)
    also have "\<dots> \<le> x" using x by (rule ilog2_lower)
    finally show ?thesis .
  qed
  then have "real_of_int 1 \<le> x / 2 powi e" using pe by (simp add: field_simps)
  then have "1 \<le> round_even (x / 2 powi e)" by (rule round_even_mono_int)
  then have "0 < real_of_int (round_even (x / 2 powi e)) * 2 powi e"
    by simp
  then show ?thesis using x by (simp add: round64_def Let_def e_def)
qed

lemma fsub_Fin: "fsub (Fin b) (Fin a) = round64 (b - a)"
  by (simp add: fsub_def)

text \<open>
  The rounding is the one of IEEE 754: the result is an integer of at most 53 bits times
  the quantum, that integer is nearest to the scaled argument, and a value that is
  already a double (at most 53 bits, exponent in range) is returned unchanged; so are
  the whole numbers up to \<open>2 ^ 53\<close>.
\<close>

lemma round64_correctly_rounded:
  assumes "x \<noteq> 0"
  shows "\<exists>m. \<bar>of_int m - x / 2 powi quantum x\<bar> \<le> 1 / 2 \<and> \<bar>m\<bar> \<le> 2 ^ 53
     \<and> round64 x = (if 2 ^ 1024 \<le> \<bar>real_of_int m * 2 powi quantum x\<bar>
                    then (if 0 < x then PosInf else NegInf)
                    else Fin (of_int m * 2 powi quantum x))"
proof -
  define e where "e = quantum x"
  define m where "m = round_even (x / 2 powi e)"
  have ax: "0 < \<bar>x\<bar>" using assms by simp
  have "ilog2 \<bar>x\<bar> - 52 \<le> e" by (simp add: e_def quantum_def)
  then have "ilog2 \<bar>x\<bar> + 1 \<le> e + 53" by simp
  then have "(2::real) powi (ilog2 \<bar>x\<bar> + 1) \<le> 2 powi (e + 53)"
    by (intro power_int_increasing) simp_all
  with ilog2_upper[OF ax] have "\<bar>x\<bar> < 2 powi (e + 53)" by linarith
  also have "(2::real) powi (e + 53) = 2 powi e * 2 ^ 53"
    by (simp add: power_int_add)
  finally have "\<bar>x\<bar> / 2 powi e < 2 ^ 53" by (simp add: field_simps)
  then have a: "\<bar>x / 2 powi e\<bar> < 2 ^ 53" by simp
  have "x / 2 powi e \<le> 2 ^ 53" "- (2 ^ 53) \<le> x / 2 powi e"
    using a by linarith+
  then have b: "x / 2 powi e \<le> real_of_int (2 ^ 53)" "real_of_int (- (2 ^ 53)) \<le> x / 2 powi e"
    by simp_all
  have "m \<le> 2 ^ 53" unfolding m_def using b(1) by (rule round_even_mono_int2)
  moreover have "- (2 ^ 53) \<le> m" unfolding m_def using b(2) by (rule round_even_mono_int)
  ultimately have mb: "\<bar>m\<bar> \<le> 2 ^ 53" by simp
  have near: "\<bar>of_int m - x / 2 powi e\<bar> \<le> 1 / 2" unfolding m_def by (rule round_even_bounds)
  have "round64 x = (if 2 ^ 1024 \<le> \<bar>real_of_int m * 2 powi e\<bar>
                    then (if 0 < x then PosInf else NegInf)
                    else Fin (of_int m * 2 powi e))"
    using assms by (simp add: round64_def Let_def e_def m_def)
  with near mb show ?thesis unfolding e_def by blast
qed

lemma round64_representable:
  assumes "x = of_int m * 2 powi e" "\<bar>m\<bar> < 2 ^ 53" "- 1074 \<le> e" "e \<le> 971"
  shows "round64 x = Fin x"
proof (cases "x = 0")
  case True
  then show ?thesis by (simp add: round64_def)
next
  case False
  define q where "q = quantum x"
  have ax: "0 < \<bar>x\<bar>" using False by simp
  have "\<bar>x\<bar> = real_of_int \<bar>m\<bar> * 2 powi e" unfolding assms(1) by (simp add: abs_mult)
  moreover have "real_of_int \<bar>m\<bar> < real_of_int (2 ^ 53)" using assms(2) by (simp only: of_int_less_iff)
  ultimately have lt: "\<bar>x\<bar> < 2 ^ 53 * 2 powi e" by simp
  also have "\<dots> = 2 powi (e + 53)" by (simp add: power_int_add)
  finally have "2 powi ilog2 \<bar>x\<bar> < (2::real) powi (e + 53)"
    using ilog2_lower[OF ax] by linarith
  have "ilog2 \<bar>x\<bar> < e + 53"
  proof (rule ccontr)
    assume "\<not> ilog2 \<bar>x\<bar> < e + 53"
    then have "e + 53 \<le> ilog2 \<bar>x\<bar>" by simp
    then have "(2::real) powi (e + 53) \<le> 2 powi ilog2 \<bar>x\<bar>"
      by (intro power_int_increasing) simp_all
    with \<open>2 powi ilog2 \<bar>x\<bar> < (2::real) powi (e + 53)\<close> show False by linarith
  qed
  then have qe: "q \<le> e" using assms(3) by (simp add: q_def quantum_def)
  have "(2::real) powi e = 2 powi (e - q) * 2 powi q" by (simp add: power_int_add[symmetric])
  also have "(2::real) powi (e - q) = of_int (2 ^ nat (e - q))"
    using qe by (simp add: power_int_def)
  finally have pe: "(2::real) powi e = of_int (2 ^ nat (e - q)) * 2 powi q" .
  have "x / 2 powi q = of_int (m * 2 ^ nat (e - q))"
    unfolding assms(1) pe by simp
  then have "round_even (x / 2 powi q) = m * 2 ^ nat (e - q)"
    by (simp only: round_even_of_int)
  then have r: "of_int (round_even (x / 2 powi q)) * 2 powi q = x"
    unfolding assms(1) pe by simp
  have "(2::real) ^ 53 * 2 powi e \<le> 2 ^ 53 * 2 powi 971"
    using assms(4) by (intro mult_left_mono power_int_increasing) simp_all
  also have "\<dots> = 2 ^ 1024" by simp
  finally have "\<bar>x\<bar> < 2 ^ 1024" using lt by linarith
  then show ?thesis using False r by (simp add: round64_def Let_def q_def[symmetric])
qed

lemma round64_whole:
  assumes "\<bar>k\<bar> \<le> 2 ^ 53"
  shows "round64 (of_int k) = Fin (of_int k)"
proof (cases "\<bar>k\<bar> < 2 ^ 53")
  case True
  then show ?thesis by (intro round64_representable[of _ k 0]) simp_all
next
  case False
  with assms have "\<bar>k\<bar> = 2 ^ 53" by simp
  then consider "k = 2 ^ 53" | "k = - (2 ^ 53)" by linarith
  then show ?thesis
  proof cases
    case 1
    show ?thesis unfolding 1 by (intro round64_representable[of _ "2 ^ 52" 1]) simp_all
  next
    case 2
    show ?thesis unfolding 2 by (intro round64_representable[of _ "- (2 ^ 52)" 1]) simp_all
  qed
qed

text \<open>
  The difference of two doubles is positive exactly when the first is the larger: the
  comparator of the ranking sort reads the order of two finite stabilities correctly.
\<close>

lemma positive_fsub_iff:
  assumes "on_grid a" "on_grid b"
  shows "positive (fsub (Fin b) (Fin a)) \<longleftrightarrow> a < b"
proof
  assume "positive (fsub (Fin b) (Fin a))"
  show "a < b"
  proof (rule ccontr)
    assume "\<not> a < b"
    then have "b - a \<le> 0" by simp
    then have "nonpos (round64 (b - a))" by (rule round64_nonpos)
    then have "\<not> positive (fsub (Fin b) (Fin a))"
      by (simp add: fsub_Fin nonpos_not_positive)
    with \<open>positive (fsub (Fin b) (Fin a))\<close> show False by simp
  qed
next
  assume ab: "a < b"
  from assms obtain ka kb :: int where
    a: "a = of_int ka * 2 powi (- 1074)" and b: "b = of_int kb * 2 powi (- 1074)"
    unfolding on_grid_def by blast
  have p: "(0::real) < 2 powi (- 1074)" by simp
  from ab have "real_of_int ka * 2 powi (- 1074) < real_of_int kb * 2 powi (- 1074)"
    unfolding a b .
  then have "real_of_int ka < real_of_int kb" using p by (simp only: mult_less_cancel_right_pos)
  then have "ka + 1 \<le> kb" by simp
  then have "real_of_int (ka + 1) \<le> real_of_int kb" by (simp only: of_int_le_iff)
  then have "real_of_int (ka + 1) * 2 powi (- 1074) \<le> real_of_int kb * 2 powi (- 1074)"
    using p by (simp only: mult_le_cancel_right_pos)
  then have "2 powi (- 1074) \<le> b - a" unfolding a b by (simp add: algebra_simps)
  then have "positive (round64 (b - a))" by (rule round64_positive)
  then show "positive (fsub (Fin b) (Fin a))" by (simp add: fsub_Fin)
qed

lemma fdiv_grid: "fdiv x y = Fin r \<Longrightarrow> on_grid r"
  by (cases x; cases y) (auto simp: round64_grid on_grid_0 split: if_splits)

text \<open>
  Sums, quotients by a positive count, squares and square roots stay non-negative, or
  non-negative-or-NaN once a NaN can enter.
\<close>

lemma fsquare_nonneg_or_NaN: "nonneg_or_NaN (fsquare x)"
  by (cases x) (simp_all add: fsquare_def nonneg_or_NaN_def round64_nonneg)

lemma fsquare_nonneg: "x \<noteq> NaN \<Longrightarrow> nonneg (fsquare x)"
  by (cases x) (simp_all add: fsquare_def round64_nonneg)

lemma fadd_nonneg: "nonneg a \<Longrightarrow> nonneg b \<Longrightarrow> nonneg (fadd a b)"
  by (cases a; cases b) (simp_all add: round64_nonneg)

lemma fadd_nonneg_or_NaN: "nonneg_or_NaN a \<Longrightarrow> nonneg_or_NaN b \<Longrightarrow> nonneg_or_NaN (fadd a b)"
  unfolding nonneg_or_NaN_def by (cases a; cases b) (simp_all add: round64_nonneg)

lemma foldl_fadd_nonneg:
  "nonneg a \<Longrightarrow> \<forall>x\<in>set xs. nonneg x \<Longrightarrow> nonneg (foldl fadd a xs)"
  by (induction xs arbitrary: a) (simp_all add: fadd_nonneg)

lemma foldl_fadd_nonneg_or_NaN:
  "nonneg_or_NaN a \<Longrightarrow> \<forall>x\<in>set xs. nonneg_or_NaN x \<Longrightarrow> nonneg_or_NaN (foldl fadd a xs)"
  by (induction xs arbitrary: a) (simp_all add: fadd_nonneg_or_NaN)

lemma fdiv_nonneg: "nonneg a \<Longrightarrow> 0 < d \<Longrightarrow> nonneg (fdiv a (Fin d))"
  by (cases a) (simp_all add: round64_nonneg)

lemma fdiv_nonneg_or_NaN: "nonneg_or_NaN a \<Longrightarrow> 0 < d \<Longrightarrow> nonneg_or_NaN (fdiv a (Fin d))"
  unfolding nonneg_or_NaN_def by (cases a) (simp_all add: round64_nonneg)

lemma isqrt_aux_ge: "r \<le> isqrt_aux n r b"
proof (induction n r b rule: isqrt_aux.induct)
  case (1 n r b)
  show ?case
  proof (cases "b \<le> 0")
    case True
    then show ?thesis by (simp add: isqrt_aux.simps)
  next
    case False
    show ?thesis
    proof (cases "(r + b) * (r + b) \<le> n")
      case True
      with False "1.IH"(1) have "r + b \<le> isqrt_aux n (r + b) (b div 2)" by simp
      with False True show ?thesis by (subst isqrt_aux.simps) simp
    next
      case ff: False
      with False "1.IH"(2) have "r \<le> isqrt_aux n r (b div 2)" by simp
      with False ff show ?thesis by (subst isqrt_aux.simps) simp
    qed
  qed
qed

lemma isqrt_nonneg: "0 \<le> isqrt n"
  unfolding isqrt_def by (rule isqrt_aux_ge)

lemma sqrt_mantissa_nonneg: "0 \<le> sqrt_mantissa y"
  using isqrt_nonneg[of "\<lfloor>y\<rfloor>"] by (simp add: sqrt_mantissa_def Let_def)

lemma fsqrt_nonneg: "nonneg a \<Longrightarrow> nonneg (fsqrt a)"
  by (cases a) (simp_all add: Let_def sqrt_mantissa_nonneg)

lemma fsqrt_nonneg_or_NaN: "nonneg_or_NaN a \<Longrightarrow> nonneg_or_NaN (fsqrt a)"
  unfolding nonneg_or_NaN_def by (cases a) (simp_all add: Let_def sqrt_mantissa_nonneg)

lemma fadd_Fin_not_NaN: "a \<noteq> NaN \<Longrightarrow> fadd a (Fin b) \<noteq> NaN"
  by (cases a) (simp_all add: round64_not_NaN)

lemma fadd_Fin_not_NaN2: "a \<noteq> NaN \<Longrightarrow> fadd (Fin b) a \<noteq> NaN"
  by (cases a) (simp_all add: round64_not_NaN)

lemma foldl_fadd_not_NaN:
  "a \<noteq> NaN \<Longrightarrow> \<forall>x\<in>set xs. is_finite x \<Longrightarrow> foldl fadd a xs \<noteq> NaN"
proof (induction xs arbitrary: a)
  case Nil
  then show ?case by simp
next
  case (Cons x xs)
  then obtain b where "x = Fin b" by (cases x) auto
  with Cons show ?case by (simp add: fadd_Fin_not_NaN)
qed

lemma fsub_Fin_not_NaN: "m \<noteq> NaN \<Longrightarrow> fsub (Fin x) m \<noteq> NaN"
  unfolding fsub_def by (cases m) (simp_all add: round64_not_NaN)

text \<open>
  The bisection computes the integer square root, and \<open>fsqrt\<close> is the correctly rounded
  square root: a 53-bit integer, nearest to the scaled root, times the quantum.
\<close>

lemma isqrt_aux_bracket:
  assumes "0 \<le> r" "r * r \<le> n" "n < (r + 2 ^ Suc j) * (r + 2 ^ Suc j)"
  shows "isqrt_aux n r (2 ^ j) * isqrt_aux n r (2 ^ j) \<le> n
       \<and> n < (isqrt_aux n r (2 ^ j) + 1) * (isqrt_aux n r (2 ^ j) + 1)"
  using assms
proof (induction j arbitrary: r)
  case 0
  show ?case
  proof (cases "(r + 1) * (r + 1) \<le> n")
    case True
    then have "isqrt_aux n r (2 ^ 0) = r + 1"
      by (simp add: isqrt_aux.simps[of n r 1] isqrt_aux.simps[of n "r + 1" 0])
    with True "0.prems" show ?thesis by (simp add: algebra_simps)
  next
    case False
    then have "isqrt_aux n r (2 ^ 0) = r"
      by (simp add: isqrt_aux.simps[of n r 1] isqrt_aux.simps[of n r 0])
    with False "0.prems" show ?thesis by simp
  qed
next
  case (Suc j)
  have b: "(2::int) ^ Suc j div 2 = 2 ^ j" "\<not> (2::int) ^ Suc j \<le> 0" by simp_all
  show ?case
  proof (cases "(r + 2 ^ Suc j) * (r + 2 ^ Suc j) \<le> n")
    case True
    then have e: "isqrt_aux n r (2 ^ Suc j) = isqrt_aux n (r + 2 ^ Suc j) (2 ^ j)"
      using b by (subst isqrt_aux.simps) simp
    have "n < (r + 2 ^ Suc j + 2 ^ Suc j) * (r + 2 ^ Suc j + 2 ^ Suc j)"
      using Suc.prems(3) by (simp add: algebra_simps)
    with Suc.IH[of "r + 2 ^ Suc j"] True Suc.prems(1) show ?thesis
      unfolding e by simp
  next
    case False
    then have e: "isqrt_aux n r (2 ^ Suc j) = isqrt_aux n r (2 ^ j)"
      using b by (subst isqrt_aux.simps) simp
    from False have "n < (r + 2 ^ Suc j) * (r + 2 ^ Suc j)" by simp
    with Suc.IH[of r] Suc.prems(1,2) show ?thesis unfolding e by simp
  qed
qed

lemma isqrt_bracket:
  assumes "0 \<le> n"
  shows "isqrt n * isqrt n \<le> n \<and> n < (isqrt n + 1) * (isqrt n + 1)"
proof -
  define j where "j = nat ((bitlen n + 1) div 2)"
  have "n < 2 ^ nat (bitlen n)"
  proof (cases "n = 0")
    case True
    then show ?thesis by simp
  next
    case False
    with assms have "0 < n" by simp
    from bitlen_bounds[OF this] show ?thesis by simp
  qed
  also have "(2::int) ^ nat (bitlen n) \<le> 2 ^ (2 * j)"
    using bitlen_nonneg[of n] by (intro power_increasing) (simp_all add: j_def)
  also have "(2::int) ^ (2 * j) \<le> (2 ^ Suc j) * (2 ^ Suc j)"
    by (simp add: power2_eq_square[symmetric] power_mult[symmetric] power_even_eq)
  finally have "n < (0 + 2 ^ Suc j) * (0 + 2 ^ Suc j)" by simp
  from isqrt_aux_bracket[OF _ _ this] assms show ?thesis
    by (simp add: isqrt_def j_def)
qed

lemma sqrt_mantissa_near:
  assumes "0 \<le> y"
  shows "\<bar>of_int (sqrt_mantissa y) - sqrt y\<bar> \<le> 1 / 2"
proof -
  define f where "f = isqrt \<lfloor>y\<rfloor>"
  have fl: "0 \<le> \<lfloor>y\<rfloor>" using assms by simp
  from isqrt_bracket[OF fl] have
    b: "f * f \<le> \<lfloor>y\<rfloor>" "\<lfloor>y\<rfloor> < (f + 1) * (f + 1)" by (simp_all add: f_def)
  have f0: "0 \<le> f" unfolding f_def by (rule isqrt_nonneg)
  have "real_of_int (f * f) \<le> of_int \<lfloor>y\<rfloor>" using b(1) by (simp only: of_int_le_iff)
  also have "\<dots> \<le> y" by simp
  finally have "(real_of_int f)\<^sup>2 \<le> y" by (simp add: power2_eq_square)
  then have lo: "of_int f \<le> sqrt y" by (rule real_le_rsqrt)
  have "\<lfloor>y\<rfloor> + 1 \<le> (f + 1) * (f + 1)" using b(2) by simp
  then have "real_of_int (\<lfloor>y\<rfloor> + 1) \<le> of_int ((f + 1) * (f + 1))" by (simp only: of_int_le_iff)
  moreover have "y < of_int (\<lfloor>y\<rfloor> + 1)" by linarith
  ultimately have "y < real_of_int ((f + 1) * (f + 1))" by (rule less_le_trans[rotated])
  then have "y < (real_of_int f + 1)\<^sup>2" by (simp add: power2_eq_square)
  then have hi: "sqrt y < of_int f + 1" using assms f0 by (intro real_less_lsqrt) simp_all
  define h where "h = (real_of_int f + 1 / 2) * (real_of_int f + 1 / 2)"
  have hh: "h = (real_of_int f + 1 / 2)\<^sup>2" by (simp add: h_def power2_eq_square)
  have hp: "0 \<le> real_of_int f + 1 / 2" using f0 by simp
  consider "y < h" | "h < y" | "y = h" by linarith
  then show ?thesis
  proof cases
    case 1
    then have "sqrt y < real_of_int f + 1 / 2"
      unfolding hh using assms hp by (intro real_less_lsqrt) simp_all
    moreover have "sqrt_mantissa y = f" using 1 by (simp add: sqrt_mantissa_def Let_def f_def h_def)
    ultimately show ?thesis using lo by simp
  next
    case 2
    then have "real_of_int f + 1 / 2 < sqrt y"
      unfolding hh by (intro real_less_rsqrt) simp_all
    moreover have "sqrt_mantissa y = f + 1" using 2 by (simp add: sqrt_mantissa_def Let_def f_def h_def)
    ultimately show ?thesis using hi by simp
  next
    case 3
    then have "sqrt y = real_of_int f + 1 / 2"
      unfolding hh using hp by (simp add: real_sqrt_abs2 abs_of_nonneg real_sqrt_unique)
    moreover have "sqrt_mantissa y = f \<or> sqrt_mantissa y = f + 1"
      by (simp add: sqrt_mantissa_def Let_def f_def)
    ultimately show ?thesis by auto
  qed
qed

lemma fsqrt_correctly_rounded:
  assumes "0 < x"
  shows "\<exists>m. fsqrt (Fin x) = Fin (of_int m * 2 powi (ilog2 x div 2 - 52))
     \<and> \<bar>of_int m - sqrt x / 2 powi (ilog2 x div 2 - 52)\<bar> \<le> 1 / 2
     \<and> 2 ^ 52 \<le> m \<and> m \<le> 2 ^ 53"
proof -
  define l where "l = ilog2 x"
  define k where "k = l div 2 - 52"
  define y where "y = x / 2 powi (2 * k)"
  define m where "m = sqrt_mantissa y"
  have p: "(0::real) < 2 powi k" by simp
  have sq: "(2::real) powi (2 * k) = (2 powi k)\<^sup>2"
    by (simp add: power2_eq_square power_int_add[symmetric])
  have y0: "0 \<le> y" using assms by (simp add: y_def)
  have sy: "sqrt y = sqrt x / 2 powi k"
    unfolding y_def sq by (simp add: real_sqrt_divide)
  have near: "\<bar>of_int m - sqrt x / 2 powi k\<bar> \<le> 1 / 2"
    using sqrt_mantissa_near[OF y0] by (simp add: m_def sy)
  have lk: "l - 2 * k = 104 + l mod 2" unfolding k_def by presburger
  have "2 powi l \<le> x" unfolding l_def using assms by (rule ilog2_lower)
  then have "2 powi l / 2 powi (2 * k) \<le> y" unfolding y_def by (simp add: divide_right_mono)
  also have "(2::real) powi l / 2 powi (2 * k) = 2 powi (l - 2 * k)"
    by (simp add: power_int_diff)
  finally have "2 powi (104 + l mod 2) \<le> y" unfolding lk .
  moreover have "(2::real) powi 104 \<le> 2 powi (104 + l mod 2)"
    by (intro power_int_increasing) simp_all
  ultimately have ylo: "(2 ^ 52)\<^sup>2 \<le> y" by simp
  have "x < 2 powi (l + 1)" unfolding l_def using assms by (rule ilog2_upper)
  then have "y < 2 powi (l + 1) / 2 powi (2 * k)" unfolding y_def by (simp add: divide_strict_right_mono)
  also have "(2::real) powi (l + 1) / 2 powi (2 * k) = 2 powi (l + 1 - 2 * k)"
    by (simp add: power_int_diff)
  also have "l + 1 - 2 * k = 105 + l mod 2" using lk by simp
  finally have "y < 2 powi (105 + l mod 2)" .
  moreover have "(2::real) powi (105 + l mod 2) \<le> 2 powi 106"
    by (intro power_int_increasing) simp_all
  ultimately have yhi: "y < (2 ^ 53)\<^sup>2" by simp
  have slo: "2 ^ 52 \<le> sqrt y" using ylo by (rule real_le_rsqrt)
  have shi: "sqrt y < 2 ^ 53" using yhi y0 by (intro real_less_lsqrt) simp_all
  from sqrt_mantissa_near[OF y0] have
    "sqrt y - 1 / 2 \<le> of_int m" "of_int m \<le> sqrt y + 1 / 2"
    unfolding m_def by linarith+
  with slo shi have "real_of_int (2 ^ 52) - 1 / 2 \<le> of_int m"
    "of_int m < real_of_int (2 ^ 53) + 1 / 2" by simp_all
  then have "2 ^ 52 - 1 < m" "m < 2 ^ 53 + 1" by linarith+
  then have mb: "2 ^ 52 \<le> m" "m \<le> 2 ^ 53" by simp_all
  have "fsqrt (Fin x) = Fin (of_int m * 2 powi k)"
    using assms by (simp add: Let_def m_def y_def k_def l_def)
  with near mb show ?thesis unfolding k_def l_def by blast
qed

text \<open>
  Evaluation of the model on numerals: the bit length of a numeral, and the equations
  that unfold the arithmetic.
\<close>

lemma bitlen_numeral_simps:
  "bitlen 1 = 1"
  "bitlen (numeral Num.One) = 1"
  "bitlen (numeral (Num.Bit0 n)) = bitlen (numeral n) + 1"
  "bitlen (numeral (Num.Bit1 n)) = bitlen (numeral n) + 1"
proof -
  have *: "\<And>x. bitlen x = (if 0 < x then bitlen (x div 2) + 1 else 0)"
    by (simp add: bitlen_def compute_floorlog[of 2] nat_div_distrib)
  show "bitlen 1 = 1" by (subst *) simp
  show "bitlen (numeral (Num.Bit0 n)) = bitlen (numeral n) + 1" by (subst *) simp
  show "bitlen (numeral (Num.Bit1 n)) = bitlen (numeral n) + 1" by (subst *) simp
  show "bitlen (numeral Num.One) = 1" by (subst *) simp
qed

lemmas number_eval = round64_def quantum_def ilog2_def round_even_def Let_def
  bitlen_numeral_simps fsub_def fsquare_def isqrt_def sqrt_mantissa_def isqrt_aux.simps

lemma tenth_is_nearest_double: "round64 (1 / 10) = tenth"
  by (simp add: number_eval)

section \<open>mean and stdDev\<close>

lemma valid_entries_filter: "valid_entries arr = map number_of (filter is_valid arr)"
proof (induction arr)
  case Nil
  then show ?case by simp
next
  case (Cons v vs)
  then show ?case by (cases v) (simp_all add: is_valid_def)
qed

lemma foldl_number_of:
  "foldl (\<lambda>a b. fadd a (number_of b)) acc vs = foldl fadd acc (map number_of vs)"
  by (induction vs arbitrary: acc) simp_all

lemma foldl_squares:
  "foldl (\<lambda>acc v. fadd acc (fsquare (fsub (number_of v) m))) a vs =
     foldl fadd a (map (\<lambda>x. fsquare (fsub x m)) (map number_of vs))"
  by (induction vs arbitrary: a) simp_all

lemma mean_valid_entries:
  "mean arr = (if valid_entries arr = [] then None else Some (arithmetic_mean (valid_entries arr)))"
  by (simp add: mean_def Let_def valid_entries_filter arithmetic_mean_def total_def
      foldl_number_of)

lemma stdDev_valid_entries:
  "stdDev arr = (if length (valid_entries arr) < 2 then None
                 else Some (sample_std (valid_entries arr)))"
proof (cases "length (valid_entries arr) < 2")
  case True
  then show ?thesis by (simp add: stdDev_def Let_def valid_entries_filter)
next
  case False
  define vals where "vals = filter is_valid arr"
  have len: "\<not> length vals < 2" "length (valid_entries arr) = length vals"
    using False by (simp_all add: vals_def valid_entries_filter)
  have ne: "map number_of vals \<noteq> []" using len by auto
  have m: "mean vals = Some (arithmetic_mean (map number_of vals))"
    using ne mean_valid_entries[of vals]
    by (simp add: valid_entries_filter vals_def)
  have n1: "real (length vals - Suc 0) = real (length vals) - 1" using len by simp
  have "stdDev arr = Some (fsqrt (fdiv
          (foldl (\<lambda>acc v. fadd acc (fsquare (fsub (number_of v)
              (arithmetic_mean (map number_of vals))))) (Fin 0) vals)
          (Fin (real (length vals - 1)))))"
    using len m by (simp add: stdDev_def Let_def vals_def[symmetric])
  also have "\<dots> = Some (sample_std (map number_of vals))"
    by (simp add: sample_std_def total_def foldl_squares n1 comp_def)
  finally show ?thesis using False by (simp add: valid_entries_filter vals_def)
qed

lemma stdDev_Some_mean_Some: "stdDev arr \<noteq> None \<Longrightarrow> mean arr \<noteq> None"
  by (auto simp: mean_valid_entries stdDev_valid_entries split: if_splits)

text \<open>
  On whole numbers whose absolute values sum to at most \<open>2 ^ 53\<close> no addition rounds:
  \<open>mean\<close> is the exact arithmetic mean, rounded once.
\<close>

lemma valid_entries_whole:
  "valid_entries (map (\<lambda>k. JNumber (Fin (real_of_int k))) ks) = map (\<lambda>k. Fin (real_of_int k)) ks"
  by (induction ks) simp_all

lemma total_whole_numbers_aux:
  assumes "\<bar>real_of_int a\<bar> + (\<Sum>k\<leftarrow>ks. \<bar>real_of_int k\<bar>) \<le> 2 ^ 53"
  shows "foldl fadd (Fin (of_int a)) (map (\<lambda>k. Fin (real_of_int k)) ks) = Fin (of_int (a + sum_list ks))"
  using assms
proof (induction ks arbitrary: a)
  case Nil
  then show ?case by simp
next
  case (Cons k ks)
  have nn: "0 \<le> (\<Sum>k\<leftarrow>ks. \<bar>real_of_int k\<bar>)" by (rule sum_list_nonneg) auto
  have tri: "\<bar>real_of_int (a + k)\<bar> \<le> \<bar>real_of_int a\<bar> + \<bar>real_of_int k\<bar>" by simp
  with Cons.prems nn have "real_of_int \<bar>a + k\<bar> \<le> real_of_int (2 ^ 53)" by simp
  then have "\<bar>a + k\<bar> \<le> 2 ^ 53" by (simp only: of_int_le_iff)
  then have "round64 (of_int (a + k)) = Fin (of_int (a + k))" by (rule round64_whole)
  then have step: "fadd (Fin (of_int a)) (Fin (of_int k)) = Fin (of_int (a + k))" by simp
  have "\<bar>real_of_int (a + k)\<bar> + (\<Sum>k\<leftarrow>ks. \<bar>real_of_int k\<bar>) \<le> 2 ^ 53"
    using tri Cons.prems by simp
  from Cons.IH[OF this] step show ?case by (simp add: add.assoc)
qed

lemma mean_whole_numbers:
  assumes "ks \<noteq> []" "(\<Sum>k\<leftarrow>ks. \<bar>real_of_int k\<bar>) \<le> 2 ^ 53"
  shows "mean (map (\<lambda>k. JNumber (Fin (real_of_int k))) ks)
       = Some (round64 (real_of_int (sum_list ks) / real (length ks)))"
proof -
  have "total (map (\<lambda>k. Fin (real_of_int k)) ks) = Fin (of_int (sum_list ks))"
    using total_whole_numbers_aux[of 0 ks] assms(2) by (simp add: total_def)
  then show ?thesis
    using assms(1) by (simp add: mean_valid_entries valid_entries_whole arithmetic_mean_def)
qed

text \<open>
  The mean and the standard deviation of the groups of the scenario.
\<close>

lemma groupA_mean_std:
  "mean (data groupA) = Some (Fin 92)"
  "stdDev (data groupA) = Some (Fin 2)"
  by (simp_all add: number_eval mean_def stdDev_def is_valid_def)

lemma groupB_mean_std:
  "mean (data groupB) = Some (Fin (165 / 2))"
  "stdDev (data groupB) = Some (Fin (124395540479019 / 2 ^ 45))"
  by (simp_all add: number_eval mean_def stdDev_def is_valid_def)

lemma groupC_mean_std:
  "mean (data groupC) = Some (Fin 92)"
  "stdDev (data groupC) = Some (Fin 0)"
  by (simp_all add: number_eval mean_def stdDev_def is_valid_def)

lemma groupT_mean_std:
  "mean (data groupT) = Some (Fin (7205759403792795 / 2 ^ 56))"
  "stdDev (data groupT) = Some (Fin (2757880273211543 / 2 ^ 107))"
  by (simp_all add: number_eval mean_def stdDev_def is_valid_def)

lemma groupH_mean_std:
  "mean (data groupH) = Some (Fin 0)"
  "stdDev (data groupH) = Some PosInf"
  by (simp_all add: number_eval mean_def stdDev_def is_valid_def)

lemma groupI_mean_std:
  "mean (data groupI) = Some PosInf"
  "stdDev (data groupI) = Some NaN"
  by (simp_all add: number_eval mean_def stdDev_def is_valid_def)

lemma groupZ_mean_std:
  "mean (data groupZ) = Some (Fin 1)"
  "stdDev (data groupZ) = Some PosInf"
  by (simp_all add: number_eval mean_def stdDev_def is_valid_def)



section \<open>The stability of a group\<close>

lemma stats_map: "stats (computeStabilityFromLineDatasets years datasets) = map group_stats_of datasets"
  by (simp add: computeStabilityFromLineDatasets_def Let_def)

lemma ranked_unfold:
  "ranked (computeStabilityFromLineDatasets years datasets)
     = sort_by by_stability_desc (filter rankable (map group_stats_of datasets))"
  by (simp add: computeStabilityFromLineDatasets_def Let_def)

lemma group_stats_of_fields:
  "group (group_stats_of ds) = label ds"
  "mean_value (group_stats_of ds) = mean (data ds)"
  "std (group_stats_of ds) = stdDev (data ds)"
  "stability (group_stats_of ds) =
     (if stdDev (data ds) = None \<or> stdDev (data ds) = Some (Fin 0) then None
      else Some (fdiv (to_num (mean (data ds))) (to_num (stdDev (data ds)))))"
  using stdDev_Some_mean_Some[of "data ds"]
  by (auto simp: group_stats_of_def Let_def)

text \<open>
  The statistics of the groups of the scenario, and the equations that unfold the
  ranking.
\<close>

lemma groupA_stats:
  "group_stats_of groupA = \<lparr>group = ''A'', mean_value = Some (Fin 92), std = Some (Fin 2),
     stability = Some (Fin 46)\<rparr>"
  unfolding group_stats_of_def groupA_mean_std by (simp add: number_eval)

lemma groupB_stats:
  "group_stats_of groupB = \<lparr>group = ''B'', mean_value = Some (Fin (165 / 2)),
     std = Some (Fin (124395540479019 / 2 ^ 45)),
     stability = Some (Fin (6568084537292203 / 2 ^ 48))\<rparr>"
  unfolding group_stats_of_def groupB_mean_std by (simp add: number_eval)

lemma groupC_stats:
  "group_stats_of groupC = \<lparr>group = ''C'', mean_value = Some (Fin 92), std = Some (Fin 0),
     stability = None\<rparr>"
  unfolding group_stats_of_def groupC_mean_std by (simp add: Let_def)

lemma groupT_stats:
  "group_stats_of groupT = \<lparr>group = ''T'', mean_value = Some (Fin (7205759403792795 / 2 ^ 56)),
     std = Some (Fin (2757880273211543 / 2 ^ 107)), stability = Some (Fin 5883477916184627)\<rparr>"
  unfolding group_stats_of_def groupT_mean_std by (simp add: number_eval)

lemma groupH_stats:
  "group_stats_of groupH = \<lparr>group = ''H'', mean_value = Some (Fin 0), std = Some PosInf,
     stability = Some (Fin 0)\<rparr>"
  unfolding group_stats_of_def groupH_mean_std by (simp add: Let_def)

lemma groupI_stats:
  "group_stats_of groupI = \<lparr>group = ''I'', mean_value = Some PosInf, std = Some NaN,
     stability = Some NaN\<rparr>"
  unfolding group_stats_of_def groupI_mean_std by (simp add: Let_def)

lemma groupZ_stats:
  "group_stats_of groupZ = \<lparr>group = ''Z'', mean_value = Some (Fin 1), std = Some PosInf,
     stability = Some (Fin 0)\<rparr>"
  unfolding group_stats_of_def groupZ_mean_std by (simp add: Let_def)

lemmas ranking_eval = sort_by_def rankable_def by_stability_desc_def

text \<open>
  Counterexample for C2. The claim lets the stability be \<open>None\<close> whenever the standard
  deviation is NaN or infinite. Group H holds \<open>2 ^ 600\<close> and its negative: the squares
  overflow, the standard deviation is \<open>+Infinity\<close> and the stability is the number 0,
  which is ranked. Group I holds \<open>+Infinity\<close> and 1: the standard deviation is NaN and so
  is the stability.
\<close>

theorem infinite_or_NaN_std_counterexample:
  "stats (computeStabilityFromLineDatasets [Fin 2020, Fin 2021] [groupH, groupI])
     = [\<lparr>group = ''H'', mean_value = Some (Fin 0), std = Some PosInf, stability = Some (Fin 0)\<rparr>,
        \<lparr>group = ''I'', mean_value = Some PosInf, std = Some NaN, stability = Some NaN\<rparr>]
   \<and> map group (ranked (computeStabilityFromLineDatasets [Fin 2020, Fin 2021] [groupH, groupI]))
     = [''H'']"
  unfolding stats_map ranked_unfold list.map groupH_stats groupI_stats
  by (simp add: ranking_eval)

text \<open>
  Claim C2, amended. In the statistics of every group, in input order, the mean and
  the standard deviation are those of the group's series, and the stability is
  \<open>None\<close> exactly when the standard deviation is \<open>None\<close> or 0, and the quotient of
  mean by standard deviation otherwise (also when the standard deviation is NaN or
  infinite).
\<close>

theorem stability_is_mean_over_std:
  "length (stats (computeStabilityFromLineDatasets years datasets)) = length datasets
   \<and> (\<forall>i<length datasets.
         group (stats (computeStabilityFromLineDatasets years datasets) ! i) = label (datasets ! i)
       \<and> mean_value (stats (computeStabilityFromLineDatasets years datasets) ! i)
           = mean (data (datasets ! i))
       \<and> std (stats (computeStabilityFromLineDatasets years datasets) ! i)
           = stdDev (data (datasets ! i))
       \<and> stability (stats (computeStabilityFromLineDatasets years datasets) ! i)
           = (if stdDev (data (datasets ! i)) = None \<or> stdDev (data (datasets ! i)) = Some (Fin 0)
              then None
              else Some (fdiv (to_num (mean (data (datasets ! i))))
                              (to_num (stdDev (data (datasets ! i)))))))"
  by (simp add: stats_map group_stats_of_fields)

text \<open>
  Witness for C2 (amended): group A has stability 92 / 2 = 46, the constant group C has
  standard deviation 0 and no stability.
\<close>

theorem stability_is_mean_over_std_witness:
  "stability (stats (computeStabilityFromLineDatasets scenario_years [groupA, groupC]) ! 0)
     = Some (Fin 46)
   \<and> std (stats (computeStabilityFromLineDatasets scenario_years [groupA, groupC]) ! 1)
     = Some (Fin 0)
   \<and> stability (stats (computeStabilityFromLineDatasets scenario_years [groupA, groupC]) ! 1)
     = None"
proof -
  note h = stability_is_mean_over_std[of scenario_years "[groupA, groupC]",
      THEN conjunct2, rule_format]
  have q: "fdiv (Fin 92) (Fin 2) = Fin 46" by (simp add: number_eval)
  from h[of 0] h[of 1] groupA_mean_std groupC_mean_std q show ?thesis by simp
qed

section \<open>The ranking\<close>

lemma rankable_iff: "rankable r \<longleftrightarrow> finite_stability r"
proof (cases "stability r")
  case None
  then show ?thesis by (simp add: rankable_def finite_stability_def)
next
  case (Some n)
  then show ?thesis by (cases n) (simp_all add: rankable_def finite_stability_def)
qed

lemma group_stats_of_gridded:
  "finite_stability (group_stats_of ds) \<Longrightarrow> gridded (group_stats_of ds)"
  unfolding finite_stability_def gridded_def group_stats_of_def Let_def
  by (auto split: if_splits dest: fdiv_grid)

lemma by_stability_desc_positive:
  assumes "gridded a" "gridded b"
  shows "positive (by_stability_desc a b) \<longleftrightarrow> stability_value a < stability_value b"
proof -
  from assms obtain va vb where
    a: "stability a = Some (Fin va)" "on_grid va" and b: "stability b = Some (Fin vb)" "on_grid vb"
    unfolding gridded_def by blast
  show ?thesis
    using positive_fsub_iff[OF a(2) b(2)] a(1) b(1)
    by (simp add: by_stability_desc_def stability_value_def)
qed

lemma insert_by_insort_key:
  assumes "gridded x" "\<forall>y\<in>set ys. gridded y"
  shows "insert_by by_stability_desc x ys = insort_key (\<lambda>r. - stability_value r) x ys"
  using assms(2)
proof (induction ys)
  case Nil
  then show ?case by simp
next
  case (Cons y ys)
  then have "gridded y" by simp
  then have "positive (by_stability_desc x y) \<longleftrightarrow> stability_value x < stability_value y"
    using assms(1) by (simp add: by_stability_desc_positive)
  with Cons show ?case by auto
qed

lemma sort_by_sort_key:
  assumes "\<forall>y\<in>set xs. gridded y"
  shows "sort_by by_stability_desc xs = sort_key (\<lambda>r. - stability_value r) xs"
  using assms
proof (induction xs)
  case Nil
  then show ?case by (simp add: sort_by_def)
next
  case (Cons x xs)
  then have ih: "sort_by by_stability_desc xs = sort_key (\<lambda>r. - stability_value r) xs"
    by simp
  have "\<forall>y\<in>set (sort_key (\<lambda>r. - stability_value r) xs). gridded y"
    using Cons.prems by simp
  then have "insert_by by_stability_desc x (sort_key (\<lambda>r. - stability_value r) xs)
      = insort_key (\<lambda>r. - stability_value r) x (sort_key (\<lambda>r. - stability_value r) xs)"
    using Cons.prems by (intro insert_by_insort_key) simp_all
  then show ?case using ih by (simp add: sort_by_def)
qed

lemma ranked_sort_key:
  "ranked (computeStabilityFromLineDatasets years datasets) =
     sort_key (\<lambda>r. - stability_value r)
       (filter finite_stability (stats (computeStabilityFromLineDatasets years datasets)))"
proof -
  have "\<forall>y\<in>set (filter rankable (map group_stats_of datasets)). gridded y"
    by (auto simp: rankable_iff group_stats_of_gridded)
  then have "sort_by by_stability_desc (filter rankable (map group_stats_of datasets)) =
      sort_key (\<lambda>r. - stability_value r) (filter rankable (map group_stats_of datasets))"
    by (rule sort_by_sort_key)
  moreover have "filter rankable (map group_stats_of datasets)
      = filter finite_stability (map group_stats_of datasets)"
    by (rule filter_cong) (simp_all add: rankable_iff)
  ultimately show ?thesis
    by (simp add: computeStabilityFromLineDatasets_def Let_def)
qed

lemma ranked_finite_stability:
  "r \<in> set (ranked (computeStabilityFromLineDatasets years datasets)) \<Longrightarrow> finite_stability r"
  unfolding ranked_sort_key by simp

text \<open>
  Claim C3. The ranked list holds exactly the entries of \<open>stats\<close> with a finite
  stability (as a multiset), it is in descending order of stability, entries of equal
  stability keep their input order, and it is a subset of \<open>stats\<close>.
\<close>

theorem ranked_is_stable_descending_sort:
  "mset (ranked (computeStabilityFromLineDatasets years datasets)) =
     mset (filter finite_stability (stats (computeStabilityFromLineDatasets years datasets)))
   \<and> sorted_wrt (\<lambda>a b. stability_value a \<ge> stability_value b)
        (ranked (computeStabilityFromLineDatasets years datasets))
   \<and> (\<forall>v. filter (\<lambda>r. stability_value r = v)
              (ranked (computeStabilityFromLineDatasets years datasets)) =
            filter (\<lambda>r. stability_value r = v)
              (filter finite_stability (stats (computeStabilityFromLineDatasets years datasets))))
   \<and> set (ranked (computeStabilityFromLineDatasets years datasets))
        \<subseteq> set (stats (computeStabilityFromLineDatasets years datasets))"
proof -
  let ?res = "computeStabilityFromLineDatasets years datasets"
  let ?f = "\<lambda>r. - stability_value r"
  let ?xs = "filter finite_stability (stats ?res)"
  have r: "ranked ?res = sort_key ?f ?xs" by (rule ranked_sort_key)
  have 1: "mset (ranked ?res) = mset ?xs" unfolding r by simp
  have "sorted (map ?f (sort_key ?f ?xs))" by (rule sorted_sort_key)
  then have 2: "sorted_wrt (\<lambda>a b. stability_value a \<ge> stability_value b) (ranked ?res)"
    unfolding r by (simp add: sorted_map)
  have 3: "filter (\<lambda>r. stability_value r = v) (ranked ?res) = filter (\<lambda>r. stability_value r = v) ?xs" for v
  proof -
    have "filter (\<lambda>r. ?f r = - v) (sort_key ?f ?xs) = filter (\<lambda>r. ?f r = - v) ?xs"
      by (rule sort_key_stable)
    then show ?thesis unfolding r by simp
  qed
  have 4: "set (ranked ?res) \<subseteq> set (stats ?res)" unfolding r by auto
  from 1 2 3 4 show ?thesis by blast
qed

text \<open>
  Witness for C3: from the groups B, C, A the ranking is A (46) before B (23.33...), and
  the constant group C is left out.
\<close>

theorem ranked_is_stable_descending_sort_witness:
  "mset (ranked (computeStabilityFromLineDatasets scenario_years [groupB, groupC, groupA])) =
     mset (filter finite_stability
       (stats (computeStabilityFromLineDatasets scenario_years [groupB, groupC, groupA])))
   \<and> map group (ranked (computeStabilityFromLineDatasets scenario_years [groupB, groupC, groupA]))
       = [''A'', ''B'']
   \<and> map stability (ranked (computeStabilityFromLineDatasets scenario_years [groupB, groupC, groupA]))
       = [Some (Fin 46), Some (Fin (6568084537292203 / 2 ^ 48))]"
proof -
  have "map group (ranked (computeStabilityFromLineDatasets scenario_years [groupB, groupC, groupA]))
       = [''A'', ''B'']
   \<and> map stability (ranked (computeStabilityFromLineDatasets scenario_years [groupB, groupC, groupA]))
       = [Some (Fin 46), Some (Fin (6568084537292203 / 2 ^ 48))]"
    unfolding ranked_unfold list.map groupA_stats groupB_stats groupC_stats
    by (simp add: ranking_eval number_eval)
  with ranked_is_stable_descending_sort[of scenario_years "[groupB, groupC, groupA]"]
  show ?thesis by blast
qed

text \<open>
  Claim C8. The result of \<open>computeStabilityFromLineDatasets\<close> does not depend on its
  \<open>years\<close> argument.
\<close>

theorem computeStability_ignores_years:
  "computeStabilityFromLineDatasets years1 datasets =
     computeStabilityFromLineDatasets years2 datasets"
  by (simp add: computeStabilityFromLineDatasets_def)

text \<open>
  Witness for C8: the scenario computed with its years and with no years.
\<close>

theorem computeStability_ignores_years_witness:
  "computeStabilityFromLineDatasets scenario_years [groupA, groupB] =
     computeStabilityFromLineDatasets [] [groupA, groupB]"
  by (rule computeStability_ignores_years)

section \<open>Constant series\<close>

lemma replicate_valid: "valid_entries (replicate n (JNumber (Fin v))) = replicate n (Fin v)"
  by (induction n) simp_all

lemma total_zeros: "foldl fadd (Fin 0) (replicate n (Fin 0)) = Fin 0"
  by (induction n) (simp_all add: round64_zero)

lemma stdDev_constant_zero_deviation:
  assumes "2 \<le> n"
    and "mean (replicate n (JNumber (Fin v))) = Some m"
    and "m = Fin v \<or> fsquare (fsub (Fin v) m) = Fin 0"
  shows "stdDev (replicate n (JNumber (Fin v))) = Some (Fin 0)"
proof -
  have m: "arithmetic_mean (replicate n (Fin v)) = m"
    using assms(1,2) by (simp add: mean_valid_entries replicate_valid split: if_splits)
  have z: "fsquare (fsub (Fin v) m) = Fin 0"
    using assms(3) by (auto simp: fsquare_def fsub_def round64_zero)
  have "map (\<lambda>x. fsquare (fsub x m)) (replicate n (Fin v)) = replicate n (Fin 0)"
    by (simp add: z)
  then have "total (map (\<lambda>x. fsquare (fsub x (arithmetic_mean (replicate n (Fin v)))))
      (replicate n (Fin v))) = Fin 0"
    unfolding m total_def by (simp only: total_zeros)
  moreover have "real n - 1 \<noteq> 0" using assms(1) by simp
  ultimately have "sample_std (replicate n (Fin v)) = Fin 0"
    unfolding sample_std_def by (simp add: round64_zero)
  then show ?thesis using assms(1) by (simp add: stdDev_valid_entries replicate_valid)
qed

text \<open>
  A whole number repeated \<open>n\<close> times, with \<open>n\<close> times its absolute value at most
  \<open>2 ^ 53\<close>, has an exact mean: every running sum is a double.
\<close>

lemma total_whole_aux:
  assumes "real (j + m) * \<bar>real_of_int k\<bar> \<le> 2 ^ 53"
  shows "foldl fadd (Fin (real j * of_int k)) (replicate m (Fin (of_int k)))
       = Fin (real (j + m) * of_int k)"
  using assms
proof (induction m arbitrary: j)
  case 0
  then show ?case by simp
next
  case (Suc m)
  have le: "real (Suc j) * \<bar>real_of_int k\<bar> \<le> real (j + Suc m) * \<bar>real_of_int k\<bar>"
    by (intro mult_right_mono) simp_all
  have "real j * real_of_int k + real_of_int k = real_of_int (int (Suc j) * k)"
    by (simp add: algebra_simps)
  moreover have "\<bar>int (Suc j) * k\<bar> \<le> 2 ^ 53"
  proof -
    have "real_of_int \<bar>int (Suc j) * k\<bar> = real (Suc j) * \<bar>real_of_int k\<bar>"
      by (simp add: abs_mult)
    also have "\<dots> \<le> 2 ^ 53" using le Suc.prems by linarith
    finally have "real_of_int \<bar>int (Suc j) * k\<bar> \<le> real_of_int (2 ^ 53)" by simp
    then show ?thesis by (simp only: of_int_le_iff)
  qed
  ultimately have "fadd (Fin (real j * of_int k)) (Fin (of_int k)) = Fin (real (Suc j) * of_int k)"
    using round64_whole[of "int (Suc j) * k"] by (simp add: algebra_simps)
  moreover have "foldl fadd (Fin (real (Suc j) * of_int k)) (replicate m (Fin (of_int k)))
       = Fin (real (Suc j + m) * of_int k)"
    using Suc.prems by (intro Suc.IH) simp
  ultimately show ?case by simp
qed

lemma mean_whole_number_series:
  assumes "0 < n" "real n * \<bar>real_of_int k\<bar> \<le> 2 ^ 53"
  shows "mean (replicate n (JNumber (Fin (of_int k)))) = Some (Fin (of_int k))"
proof -
  have t: "total (replicate n (Fin (of_int k))) = Fin (real n * of_int k)"
    using total_whole_aux[of 0 n k] assms(2) by (simp add: total_def)
  have "\<bar>real_of_int k\<bar> \<le> real n * \<bar>real_of_int k\<bar>"
    using assms(1) by (simp add: mult_le_cancel_right1)
  with assms(2) have "real_of_int \<bar>k\<bar> \<le> real_of_int (2 ^ 53)" by simp
  then have "\<bar>k\<bar> \<le> 2 ^ 53" by (simp only: of_int_le_iff)
  then have "round64 (of_int k) = Fin (of_int k)" by (rule round64_whole)
  then have "arithmetic_mean (replicate n (Fin (of_int k))) = Fin (of_int k)"
    using assms(1) by (simp add: arithmetic_mean_def t)
  then show ?thesis using assms(1) by (simp add: mean_valid_entries replicate_valid)
qed

text \<open>
  Counterexample for C7. Group T holds the double nearest to one tenth three times. The
  running sum rounds, the computed mean is 0.10000000000000002 and not the value, the
  standard deviation is \<open>2757880273211543 / 2 ^ 107\<close> (about 1.7e-17) and not 0, the
  stability is 5883477916184627 and not \<open>None\<close>, and the group is ranked.
\<close>

theorem tenth_thrice_counterexample:
  "stats (computeStabilityFromLineDatasets scenario_years [groupT])
     = [\<lparr>group = ''T'', mean_value = Some (Fin (7205759403792795 / 2 ^ 56)),
         std = Some (Fin (2757880273211543 / 2 ^ 107)),
         stability = Some (Fin 5883477916184627)\<rparr>]
   \<and> ranked (computeStabilityFromLineDatasets scenario_years [groupT])
     = stats (computeStabilityFromLineDatasets scenario_years [groupT])"
  unfolding stats_map ranked_unfold list.map groupT_stats
  by (simp add: ranking_eval)

text \<open>
  Claim C7, amended. A group whose series is one finite value \<open>v\<close> repeated at least
  twice, and whose computed mean \<open>m\<close> is \<open>v\<close> itself or, more generally, such that the
  squared deviation \<open>(v - m) ** 2\<close> evaluates to 0, has standard deviation 0 and
  stability \<open>None\<close>; it is in \<open>stats\<close> and not in the ranked list.
\<close>

theorem constant_series_zero_deviation_unranked:
  assumes "2 \<le> n"
    and "mean (replicate n (JNumber (Fin v))) = Some m"
    and "m = Fin v \<or> fsquare (fsub (Fin v) m) = Fin 0"
    and "ds \<in> set datasets"
    and "data ds = replicate n (JNumber (Fin v))"
  shows "std (group_stats_of ds) = Some (Fin 0)
     \<and> stability (group_stats_of ds) = None
     \<and> group_stats_of ds \<in> set (stats (computeStabilityFromLineDatasets years datasets))
     \<and> group_stats_of ds \<notin> set (ranked (computeStabilityFromLineDatasets years datasets))"
proof -
  have s: "stdDev (data ds) = Some (Fin 0)"
    unfolding assms(5) using assms(1,2,3) by (rule stdDev_constant_zero_deviation)
  then have st: "stability (group_stats_of ds) = None" by (simp add: group_stats_of_fields)
  have "group_stats_of ds \<in> set (stats (computeStabilityFromLineDatasets years datasets))"
    using assms(4) by (simp add: stats_map)
  moreover have "group_stats_of ds \<notin> set (ranked (computeStabilityFromLineDatasets years datasets))"
    using ranked_finite_stability[of "group_stats_of ds" years datasets] st
    by (auto simp: finite_stability_def)
  ultimately show ?thesis using s st by (simp add: group_stats_of_fields)
qed

text \<open>
  Witness for C7 (amended): group C, the value 92 three times, beside group A; its mean
  is 92.
\<close>

theorem constant_series_zero_deviation_unranked_witness:
  "(2::nat) \<le> 3
   \<and> mean (replicate 3 (JNumber (Fin 92))) = Some (Fin 92)
   \<and> data groupC = replicate 3 (JNumber (Fin 92))
   \<and> std (group_stats_of groupC) = Some (Fin 0)
   \<and> stability (group_stats_of groupC) = None
   \<and> group_stats_of groupC \<in> set (stats (computeStabilityFromLineDatasets scenario_years [groupA, groupC]))
   \<and> group_stats_of groupC \<notin> set (ranked (computeStabilityFromLineDatasets scenario_years [groupA, groupC]))"
proof -
  have m: "mean (replicate 3 (JNumber (Fin 92))) = Some (Fin 92)"
    using mean_whole_number_series[of 3 92] by simp
  have d: "data groupC = replicate 3 (JNumber (Fin 92))" by (simp add: numeral_3_eq_3)
  have e: "Fin 92 = Fin 92 \<or> fsquare (fsub (Fin 92) (Fin 92)) = Fin 0" by simp
  have "(2::nat) \<le> 3" by simp
  from constant_series_zero_deviation_unranked[OF this m e _ d, of "[groupA, groupC]" scenario_years]
    m d
  show ?thesis by simp
qed

text \<open>
  The second condition without the first: one tenth scaled by \<open>2 powi - 600\<close>, three
  times. The mean is not the value, but the squared deviation underflows to 0, and so
  the standard deviation is 0.
\<close>

lemma tiny_tenth_thrice:
  "mean (replicate 3 (JNumber (Fin (3602879701896397 / 2 ^ 655))))
     = Some (Fin (7205759403792795 / 2 ^ 656))
   \<and> fsquare (fsub (Fin (3602879701896397 / 2 ^ 655)) (Fin (7205759403792795 / 2 ^ 656))) = Fin 0"
  by (simp add: numeral_3_eq_3 number_eval mean_def is_valid_def)

lemma tiny_tenth_thrice_std_zero:
  "stdDev (replicate 3 (JNumber (Fin (3602879701896397 / 2 ^ 655)))) = Some (Fin 0)"
  using tiny_tenth_thrice
  by (intro stdDev_constant_zero_deviation[where m = "Fin (7205759403792795 / 2 ^ 656)"]) simp_all

section \<open>Signs\<close>

lemma sample_std_nonneg_or_NaN:
  assumes "2 \<le> length xs"
  shows "nonneg_or_NaN (sample_std xs)"
proof -
  have "nonneg_or_NaN (total (map (\<lambda>x. fsquare (fsub x (arithmetic_mean xs))) xs))"
    unfolding total_def
    by (rule foldl_fadd_nonneg_or_NaN) (simp_all add: nonneg_or_NaN_def fsquare_nonneg_or_NaN[unfolded nonneg_or_NaN_def])
  moreover have "0 < real (length xs) - 1" using assms by simp
  ultimately show ?thesis
    unfolding sample_std_def by (intro fsqrt_nonneg_or_NaN fdiv_nonneg_or_NaN)
qed

lemma arithmetic_mean_not_NaN:
  assumes "xs \<noteq> []" "\<forall>x\<in>set xs. is_finite x"
  shows "arithmetic_mean xs \<noteq> NaN"
proof -
  have t: "total xs \<noteq> NaN" unfolding total_def using assms(2) by (intro foldl_fadd_not_NaN) simp_all
  have "real (length xs) \<noteq> 0" using assms(1) by simp
  then show ?thesis unfolding arithmetic_mean_def using t
    by (cases "total xs") (simp_all add: round64_not_NaN)
qed

lemma sample_std_nonneg:
  assumes "2 \<le> length xs" "\<forall>x\<in>set xs. is_finite x"
  shows "nonneg (sample_std xs)"
proof -
  have ne: "xs \<noteq> []" using assms(1) by auto
  have m: "arithmetic_mean xs \<noteq> NaN" using ne assms(2) by (rule arithmetic_mean_not_NaN)
  have "nonneg (fsquare (fsub x (arithmetic_mean xs)))" if "x \<in> set xs" for x
  proof -
    from that assms(2) have "is_finite x" by blast
    then obtain b where "x = Fin b" by (cases x) simp_all
    then show ?thesis using m by (simp add: fsquare_nonneg fsub_Fin_not_NaN)
  qed
  then have "nonneg (total (map (\<lambda>x. fsquare (fsub x (arithmetic_mean xs))) xs))"
    unfolding total_def by (intro foldl_fadd_nonneg) simp_all
  moreover have "0 < real (length xs) - 1" using assms(1) by simp
  ultimately show ?thesis
    unfolding sample_std_def by (intro fsqrt_nonneg fdiv_nonneg)
qed

lemma stdDev_nonneg_or_NaN: "stdDev arr = Some s \<Longrightarrow> nonneg s \<or> s = NaN"
  using sample_std_nonneg_or_NaN[of "valid_entries arr"]
  by (auto simp: stdDev_valid_entries nonneg_or_NaN_def split: if_splits)

lemma stdDev_nonneg_finite:
  "stdDev arr = Some s \<Longrightarrow> \<forall>x\<in>set (valid_entries arr). is_finite x \<Longrightarrow> nonneg s"
  using sample_std_nonneg[of "valid_entries arr"]
  by (auto simp: stdDev_valid_entries split: if_splits)

lemma finite_quotient_sign:
  assumes "fdiv m s = Fin q" "nonneg s \<or> s = NaN" "s \<noteq> Fin 0"
  shows "\<exists>a. m = Fin a \<and> (0 < a \<longrightarrow> 0 \<le> q) \<and> (a < 0 \<longrightarrow> q \<le> 0) \<and> (a = 0 \<longrightarrow> q = 0)"
proof (cases s)
  case (Fin b)
  with assms(2,3) have b: "0 < b" by simp
  show ?thesis
  proof (cases m)
    case (Fin a)
    with \<open>s = Fin b\<close> assms(1) b have q: "round64 (a / b) = Fin q" by simp
    have "0 < a \<Longrightarrow> 0 \<le> q" using q b nonneg_Fin_round64[of "a / b" q] by simp
    moreover have "a < 0 \<Longrightarrow> q \<le> 0"
      using q b nonpos_Fin_round64[of "a / b" q] by (simp add: divide_nonpos_pos)
    moreover have "a = 0 \<Longrightarrow> q = 0" using q by (simp add: round64_zero)
    ultimately show ?thesis using Fin by blast
  next
    case PosInf
    with \<open>s = Fin b\<close> assms(1) show ?thesis by (simp split: if_splits)
  next
    case NegInf
    with \<open>s = Fin b\<close> assms(1) show ?thesis by (simp split: if_splits)
  next
    case NaN
    with assms(1) show ?thesis by simp
  qed
next
  case PosInf
  with assms(1) show ?thesis by (cases m) simp_all
next
  case NegInf
  with assms(2) show ?thesis by simp
next
  case NaN
  with assms(1) show ?thesis by (cases m) simp_all
qed

lemma stability_sign:
  assumes "stability (group_stats_of ds) = Some (Fin q)"
  shows "\<exists>a. mean_value (group_stats_of ds) = Some (Fin a)
           \<and> (0 < a \<longrightarrow> 0 \<le> q) \<and> (a < 0 \<longrightarrow> q \<le> 0) \<and> (a = 0 \<longrightarrow> q = 0)"
proof -
  from assms obtain s where s: "stdDev (data ds) = Some s" "s \<noteq> Fin 0"
    by (auto simp: group_stats_of_fields split: if_splits)
  then obtain m where m: "mean (data ds) = Some m"
    using stdDev_Some_mean_Some[of "data ds"] by auto
  from assms s m have q: "fdiv m s = Fin q"
    by (simp add: group_stats_of_fields)
  from finite_quotient_sign[OF q stdDev_nonneg_or_NaN[OF s(1)] s(2)] m
  show ?thesis by (simp add: group_stats_of_fields)
qed

text \<open>
  Counterexample for C10. The series of group I, \<open>+Infinity\<close> and 1, has two valid
  entries; \<open>stdDev\<close> returns NaN, which is not \<open>null\<close> and not non-negative. And
  group Z (\<open>2 ^ 600\<close>, its negative, and 3) has the positive mean 1, an infinite standard
  deviation and the stability 0, which is finite and not positive.
\<close>

theorem stdDev_NaN_counterexample:
  "stdDev (data groupI) = Some NaN \<and> \<not> nonneg NaN
   \<and> stats (computeStabilityFromLineDatasets scenario_years [groupZ])
     = [\<lparr>group = ''Z'', mean_value = Some (Fin 1), std = Some PosInf, stability = Some (Fin 0)\<rparr>]"
proof -
  have "stats (computeStabilityFromLineDatasets scenario_years [groupZ])
     = [\<lparr>group = ''Z'', mean_value = Some (Fin 1), std = Some PosInf, stability = Some (Fin 0)\<rparr>]"
    unfolding stats_map list.map groupZ_stats by simp
  with groupI_mean_std(2) show ?thesis by simp
qed

text \<open>
  Claim C10, amended. A result of \<open>stdDev\<close> other than \<open>None\<close> is non-negative or NaN,
  and non-negative when every valid entry is finite. Every finite stability in
  \<open>stats\<close> comes with a finite mean and has the sign of that mean or is 0. (Zero
  carries no sign in this model; a quotient that underflows, or a quotient by an
  infinite standard deviation, is 0.)
\<close>

theorem stdDev_nonneg_and_stability_sign:
  "(stdDev arr = Some s \<longrightarrow> nonneg s \<or> s = NaN)
   \<and> (stdDev arr = Some s \<and> (\<forall>x\<in>set (valid_entries arr). is_finite x) \<longrightarrow> nonneg s)
   \<and> (g \<in> set (stats (computeStabilityFromLineDatasets years datasets))
        \<and> stability g = Some (Fin q) \<longrightarrow>
        (\<exists>a. mean_value g = Some (Fin a) \<and> (sgn q = sgn a \<or> q = 0)))"
proof (intro conjI impI)
  assume "stdDev arr = Some s"
  then show "nonneg s \<or> s = NaN" by (rule stdDev_nonneg_or_NaN)
next
  assume "stdDev arr = Some s \<and> (\<forall>x\<in>set (valid_entries arr). is_finite x)"
  then show "nonneg s" using stdDev_nonneg_finite by blast
next
  assume a: "g \<in> set (stats (computeStabilityFromLineDatasets years datasets))
        \<and> stability g = Some (Fin q)"
  then obtain ds where "g = group_stats_of ds" by (auto simp: stats_map)
  with a stability_sign[of ds q] obtain m where
    m: "mean_value g = Some (Fin m)" "0 < m \<longrightarrow> 0 \<le> q" "m < 0 \<longrightarrow> q \<le> 0" "m = 0 \<longrightarrow> q = 0"
    by auto
  have "sgn q = sgn m \<or> q = 0"
  proof (cases "q = 0")
    case True
    then show ?thesis by simp
  next
    case False
    with m(2,3,4) have "(0 < m \<and> 0 < q) \<or> (m < 0 \<and> q < 0)" by linarith
    then show ?thesis by auto
  qed
  with m(1) show "\<exists>a. mean_value g = Some (Fin a) \<and> (sgn q = sgn a \<or> q = 0)" by blast
qed

text \<open>
  Witness for C10 (amended): the standard deviation of group B, and the stability 46 of
  group A with its mean 92.
\<close>

theorem stdDev_nonneg_and_stability_sign_witness:
  "stdDev (data groupB) = Some (Fin (124395540479019 / 2 ^ 45))
   \<and> list_all is_finite (valid_entries (data groupB))
   \<and> nonneg (Fin (124395540479019 / 2 ^ 45))
   \<and> group_stats_of groupA \<in> set (stats (computeStabilityFromLineDatasets scenario_years [groupA, groupB]))
   \<and> stability (group_stats_of groupA) = Some (Fin 46)
   \<and> mean_value (group_stats_of groupA) = Some (Fin 92)"
proof -
  note s = groupB_mean_std(2)
  have f: "\<forall>x\<in>set (valid_entries (data groupB)). is_finite x" by simp
  have g: "group_stats_of groupA \<in> set (stats (computeStabilityFromLineDatasets scenario_years [groupA, groupB]))"
    by (simp add: stats_map)
  have q: "stability (group_stats_of groupA) = Some (Fin 46)"
    "mean_value (group_stats_of groupA) = Some (Fin 92)"
    unfolding groupA_stats by simp_all
  from stdDev_nonneg_and_stability_sign[of "data groupB" "Fin (124395540479019 / 2 ^ 45)"
      "group_stats_of groupA" scenario_years "[groupA, groupB]" 46] s f g q
  show ?thesis by (simp add: list_all_iff)
qed

section \<open>sliceByYearRange\<close>

lemma indexOf_from_absent: "\<not> present xs x \<Longrightarrow> indexOf_from xs x k = - 1"
  by (induction xs arbitrary: k) (auto simp: present_def)

lemma indexOf_from_present:
  "present xs x \<Longrightarrow> \<exists>i. first_position xs x i \<and> indexOf_from xs x k = k + i"
proof (induction xs arbitrary: k)
  case Nil
  then show ?case by (simp add: present_def)
next
  case (Cons y ys)
  show ?case
  proof (cases "strict_equals y x")
    case True
    then have "first_position (y # ys) x 0" by (simp add: first_position_def)
    then show ?thesis using True by (intro exI[of _ 0]) simp
  next
    case False
    with Cons.prems have "present ys x" by (auto simp: present_def)
    from Cons.IH[OF this, of "k + 1"] obtain i where
      i: "first_position ys x i" "indexOf_from ys x (k + 1) = k + 1 + i" by blast
    have "first_position (y # ys) x (i + 1)"
      using i(1) False unfolding first_position_def
      by (auto simp: nat_add_distrib less_Suc_eq_0_disj)
    then show ?thesis using i(2) False by (intro exI[of _ "i + 1"]) simp
  qed
qed

lemma first_position_unique:
  "first_position xs x i \<Longrightarrow> first_position xs x j \<Longrightarrow> i = j"
  unfolding first_position_def
  by (metis int_nat_eq linorder_neqE_nat)

lemma first_position_present: "first_position xs x i \<Longrightarrow> present xs x"
  unfolding first_position_def present_def by (meson nth_mem)

lemma indexOf_absent: "\<not> present xs x \<Longrightarrow> indexOf xs x = - 1"
  by (simp add: indexOf_def indexOf_from_absent)

lemma indexOf_first_position: "first_position xs x i \<Longrightarrow> indexOf xs x = i"
proof -
  assume a: "first_position xs x i"
  then have "present xs x" by (rule first_position_present)
  from indexOf_from_present[OF this, of 0] obtain j where
    j: "first_position xs x j" "indexOf_from xs x 0 = j" by auto
  with a have "i = j" by (simp add: first_position_unique)
  with j show ?thesis by (simp add: indexOf_def)
qed

lemma present_singleton: "present [y] y \<longleftrightarrow> y \<noteq> NaN"
  by (simp add: present_def strict_equals_def)

lemma sliceByYearRange_Some_bounds:
  assumes "sliceByYearRange years f t = Some sl"
  shows "0 \<le> fromIdx sl \<and> fromIdx sl \<le> toIdx sl \<and> nat (toIdx sl) < length years"
proof -
  have pf: "present years f"
    using assms indexOf_absent[of years f]
    by (auto simp: sliceByYearRange_def Let_def split: if_splits)
  have pt: "present years t"
    using assms indexOf_absent[of years t]
    by (auto simp: sliceByYearRange_def Let_def split: if_splits)
  from indexOf_from_present[OF pf, of 0] obtain i where i: "first_position years f i" by blast
  from indexOf_from_present[OF pt, of 0] obtain j where j: "first_position years t j" by blast
  have "indexOf years f = i" "indexOf years t = j"
    using i j by (simp_all add: indexOf_first_position)
  with assms have "fromIdx sl = i" "toIdx sl = j" "i \<le> j"
    by (auto simp: sliceByYearRange_def Let_def split: if_splits)
  with i j show ?thesis by (simp add: first_position_def)
qed

text \<open>
  Claim C5. When both years are present, \<open>sliceByYearRange\<close> returns their first
  positions if the position of \<open>fromYear\<close> is not behind that of \<open>toYear\<close>, and
  \<open>None\<close> otherwise; when one of them is absent it returns \<open>None\<close>; there is no
  other match than strict equality. In particular, on the singleton list of a year
  \<open>y\<close>, where \<open>y\<close> is present (it is unless it is NaN, which equals nothing), the
  range from \<open>y\<close> to \<open>y\<close> is position 0 to position 0.
\<close>

theorem sliceByYearRange_exact_positions:
  "(present years fromYear \<and> present years toYear \<longrightarrow>
      (\<exists>i j. first_position years fromYear i \<and> first_position years toYear j \<and>
         sliceByYearRange years fromYear toYear =
           (if i \<le> j then Some \<lparr>fromIdx = i, toIdx = j\<rparr> else None)))
   \<and> (\<not> present years fromYear \<or> \<not> present years toYear \<longrightarrow>
        sliceByYearRange years fromYear toYear = None)
   \<and> (present [y] y \<longrightarrow> sliceByYearRange [y] y y = Some \<lparr>fromIdx = 0, toIdx = 0\<rparr>)"
proof (intro conjI impI)
  assume p: "present years fromYear \<and> present years toYear"
  from p indexOf_from_present[of years fromYear 0] obtain i where
    i: "first_position years fromYear i" by blast
  from p indexOf_from_present[of years toYear 0] obtain j where
    j: "first_position years toYear j" by blast
  have ij: "indexOf years fromYear = i" "indexOf years toYear = j"
    using i j by (simp_all add: indexOf_first_position)
  have "0 \<le> i" "0 \<le> j" using i j by (simp_all add: first_position_def)
  then have "sliceByYearRange years fromYear toYear =
      (if i \<le> j then Some \<lparr>fromIdx = i, toIdx = j\<rparr> else None)"
    using ij by (auto simp: sliceByYearRange_def Let_def)
  with i j show "\<exists>i j. first_position years fromYear i \<and> first_position years toYear j \<and>
         sliceByYearRange years fromYear toYear =
           (if i \<le> j then Some \<lparr>fromIdx = i, toIdx = j\<rparr> else None)" by blast
next
  assume "\<not> present years fromYear \<or> \<not> present years toYear"
  then show "sliceByYearRange years fromYear toYear = None"
    by (auto simp: sliceByYearRange_def Let_def indexOf_absent)
next
  assume "present [y] y"
  then show "sliceByYearRange [y] y y = Some \<lparr>fromIdx = 0, toIdx = 0\<rparr>"
    by (simp add: sliceByYearRange_def indexOf_def present_singleton strict_equals_def)
qed

text \<open>
  Witness for C5: the years 2021 and 2022 of the scenario are at positions 1 and 2, the
  year 2019 is absent, and a singleton list.
\<close>

theorem sliceByYearRange_exact_positions_witness:
  "present scenario_years (Fin 2021) \<and> present scenario_years (Fin 2022)
   \<and> first_position scenario_years (Fin 2021) 1 \<and> first_position scenario_years (Fin 2022) 2
   \<and> sliceByYearRange scenario_years (Fin 2021) (Fin 2022) = Some \<lparr>fromIdx = 1, toIdx = 2\<rparr>
   \<and> \<not> present scenario_years (Fin 2019)
   \<and> sliceByYearRange scenario_years (Fin 2019) (Fin 2022) = None
   \<and> present [Fin 2020] (Fin 2020)
   \<and> sliceByYearRange [Fin 2020] (Fin 2020) (Fin 2020) = Some \<lparr>fromIdx = 0, toIdx = 0\<rparr>"
  using sliceByYearRange_exact_positions[of scenario_years "Fin 2021" "Fin 2022" "Fin 2020"]
    sliceByYearRange_exact_positions[of scenario_years "Fin 2019" "Fin 2022" "Fin 2020"]
  by (simp add: present_def first_position_def strict_equals_def sliceByYearRange_def
      indexOf_def less_2_cases_iff)

section \<open>applyRange\<close>

text \<open>
  Claim C4. When \<open>sliceByYearRange\<close> returns \<open>None\<close>, \<open>applyRange\<close> returns with the
  charts as they were: no field of a chart has changed and no update was counted.
\<close>

theorem applyRange_invalid_range_noop:
  "sliceByYearRange (yearsAll d) fromYear toYear = None \<Longrightarrow>
     applyRange d fromYear toYear cs = Inr cs"
  by (simp add: applyRange_def)

text \<open>
  Witness for C4: the range from 2019, which is not a year of the scenario.
\<close>

theorem applyRange_invalid_range_noop_witness:
  "sliceByYearRange (yearsAll scenario_page) (Fin 2019) (Fin 2021) = None
   \<and> applyRange scenario_page (Fin 2019) (Fin 2021) blank_charts = Inr blank_charts"
proof -
  have n: "sliceByYearRange (yearsAll scenario_page) (Fin 2019) (Fin 2021) = None"
    by (simp add: sliceByYearRange_def indexOf_def strict_equals_def)
  from applyRange_invalid_range_noop[OF n] n show ?thesis by simp
qed

lemma map_throwing_Inr:
  "(\<forall>x\<in>set xs. \<exists>v. f x = Inr v) \<Longrightarrow> \<exists>vs. map_throwing f xs = Inr vs \<and> length vs = length xs"
proof (induction xs)
  case Nil
  then show ?case by simp
next
  case (Cons x xs)
  then obtain v where v: "f x = Inr v" by auto
  from Cons obtain vs where "map_throwing f xs = Inr vs" "length vs = length xs" by auto
  with v show ?case by simp
qed

lemma bar_values_defined:
  "\<exists>vs. map_throwing (\<lambda>r. toFixed3_of (stability r))
           (ranked (computeStabilityFromLineDatasets years datasets)) = Inr vs
        \<and> length vs = length (ranked (computeStabilityFromLineDatasets years datasets))"
proof (rule map_throwing_Inr, rule ballI)
  fix r assume "r \<in> set (ranked (computeStabilityFromLineDatasets years datasets))"
  then have "finite_stability r" by (rule ranked_finite_stability)
  then show "\<exists>v. toFixed3_of (stability r) = Inr v"
    by (auto simp: finite_stability_def toFixed3_of_def)
qed

lemma scatter_points_defined:
  "\<exists>pts. map_throwing scatter_point_of
            (filter (\<lambda>r. mean_value r \<noteq> None \<and> std r \<noteq> None) rs) = Inr pts
         \<and> length pts = length (filter (\<lambda>r. mean_value r \<noteq> None \<and> std r \<noteq> None) rs)"
  by (rule map_throwing_Inr) (auto simp: scatter_point_of_def toFixed3_of_def)

lemma applyRange_Some:
  assumes "sliceByYearRange (yearsAll d) fromYear toYear = Some sl"
  shows "\<exists>cs'. applyRange d fromYear toYear cs = Inr cs'
     \<and> line_labels (lineChart cs') = slice (yearsAll d) (fromIdx sl) (toIdx sl + 1)
     \<and> map data (line_datasets (lineChart cs')) =
         map (\<lambda>ds. slice (data ds) (fromIdx sl) (toIdx sl + 1)) (lineDatasetsAll d)
     \<and> map label (line_datasets (lineChart cs')) = map label (lineDatasetsAll d)"
proof -
  define yf where "yf = slice (yearsAll d) (fromIdx sl) (toIdx sl + 1)"
  define lf where "lf = map (\<lambda>ds. \<lparr>label = label ds,
      data = slice (data ds) (fromIdx sl) (toIdx sl + 1)\<rparr>) (lineDatasetsAll d)"
  from bar_values_defined[of yf lf] obtain vs where
    vs: "map_throwing (\<lambda>r. toFixed3_of (stability r))
           (ranked (computeStabilityFromLineDatasets yf lf)) = Inr vs" by blast
  from scatter_points_defined[of "stats (computeStabilityFromLineDatasets yf lf)"] obtain pts where
    pts: "map_throwing scatter_point_of
            (filter (\<lambda>r. mean_value r \<noteq> None \<and> std r \<noteq> None)
               (stats (computeStabilityFromLineDatasets yf lf))) = Inr pts" by blast
  show ?thesis
    using assms vs pts
    by (simp add: applyRange_def Let_def yf_def[symmetric] lf_def[symmetric])
       (simp add: lf_def line_dataset_of_def comp_def)
qed

lemma applyRange_returns: "\<exists>cs'. applyRange d fromYear toYear cs = Inr cs'"
proof (cases "sliceByYearRange (yearsAll d) fromYear toYear")
  case None
  then show ?thesis by (simp add: applyRange_def)
next
  case (Some sl)
  from applyRange_Some[OF this] show ?thesis by blast
qed

lemma length_slice_inclusive:
  assumes "0 \<le> a" "a \<le> b" "nat b < length xs"
  shows "length (slice xs a (b + 1)) = nat (b - a + 1)"
  using assms by (simp add: slice_def Let_def min_def) linarith

lemma slice_inclusive:
  assumes "0 \<le> a" "a \<le> b" "nat b < length xs"
  shows "slice xs a (b + 1) = take (nat (b - a + 1)) (drop (nat a) xs)"
proof -
  have "min (b + 1) (int (length xs)) = b + 1" "min a (int (length xs)) = a"
    using assms by linarith+
  moreover have "nat (b + 1 - a) = nat (b - a + 1)" by (simp add: algebra_simps)
  ultimately show ?thesis using assms by (simp add: slice_def Let_def)
qed

lemma nth_slice_inclusive:
  assumes "0 \<le> a" "a \<le> b" "nat b < length xs" "k < nat (b - a + 1)"
  shows "slice xs a (b + 1) ! k = xs ! (nat a + k)"
proof -
  have "nat a + k < length xs" using assms by linarith
  then show ?thesis
    unfolding slice_inclusive[OF assms(1,2,3)] using assms(4) by simp
qed

lemma sliceByYearRange_Some_positions:
  assumes "sliceByYearRange years f t = Some sl"
  shows "first_position years f (fromIdx sl) \<and> first_position years t (toIdx sl)"
proof -
  have pf: "present years f"
    using assms indexOf_absent[of years f]
    by (auto simp: sliceByYearRange_def Let_def split: if_splits)
  have pt: "present years t"
    using assms indexOf_absent[of years t]
    by (auto simp: sliceByYearRange_def Let_def split: if_splits)
  from indexOf_from_present[OF pf, of 0] obtain i where i: "first_position years f i" by blast
  from indexOf_from_present[OF pt, of 0] obtain j where j: "first_position years t j" by blast
  have "indexOf years f = i" "indexOf years t = j"
    using i j by (simp_all add: indexOf_first_position)
  with assms have "fromIdx sl = i" "toIdx sl = j"
    by (auto simp: sliceByYearRange_def Let_def split: if_splits)
  with i j show ?thesis by simp
qed

text \<open>
  Claim C6. For a valid range, and when the series of every group is as long as the
  list of years, \<open>applyRange\<close> returns charts whose line view has one dataset per
  group, in the order of the groups and under the group's label, holding the entries of
  the group's series from position \<open>fromIdx\<close> to position \<open>toIdx\<close> inclusive, which
  are \<open>toIdx - fromIdx + 1\<close> entries; the labels of the view are the years at these
  positions, and \<open>fromIdx\<close> and \<open>toIdx\<close> are the positions of the two selected years.
\<close>

theorem applyRange_slices_inclusively:
  assumes "sliceByYearRange (yearsAll d) fromYear toYear = Some sl"
    and "\<forall>ds\<in>set (lineDatasetsAll d). length (data ds) = length (yearsAll d)"
  shows "\<exists>cs'. applyRange d fromYear toYear cs = Inr cs'
     \<and> length (line_datasets (lineChart cs')) = length (lineDatasetsAll d)
     \<and> (\<forall>s\<in>set (line_datasets (lineChart cs')). length (data s) = nat (toIdx sl - fromIdx sl + 1))
     \<and> length (line_labels (lineChart cs')) = nat (toIdx sl - fromIdx sl + 1)
     \<and> (\<forall>i<length (lineDatasetsAll d).
           label (line_datasets (lineChart cs') ! i) = label (lineDatasetsAll d ! i)
         \<and> length (data (line_datasets (lineChart cs') ! i)) = nat (toIdx sl - fromIdx sl + 1)
         \<and> (\<forall>k<nat (toIdx sl - fromIdx sl + 1).
               data (line_datasets (lineChart cs') ! i) ! k
                 = data (lineDatasetsAll d ! i) ! (nat (fromIdx sl) + k)))
     \<and> (\<forall>k<nat (toIdx sl - fromIdx sl + 1).
           line_labels (lineChart cs') ! k = yearsAll d ! (nat (fromIdx sl) + k))
     \<and> strict_equals (yearsAll d ! nat (fromIdx sl)) fromYear
     \<and> strict_equals (yearsAll d ! nat (toIdx sl)) toYear"
proof -
  let ?n = "nat (toIdx sl - fromIdx sl + 1)"
  from sliceByYearRange_Some_bounds[OF assms(1)] have
    b: "0 \<le> fromIdx sl" "fromIdx sl \<le> toIdx sl" "nat (toIdx sl) < length (yearsAll d)" by auto
  from sliceByYearRange_Some_positions[OF assms(1)] have
    p: "strict_equals (yearsAll d ! nat (fromIdx sl)) fromYear"
       "strict_equals (yearsAll d ! nat (toIdx sl)) toYear"
    by (simp_all add: first_position_def)
  from applyRange_Some[OF assms(1), of cs] obtain cs' where
    cs': "applyRange d fromYear toYear cs = Inr cs'"
      "line_labels (lineChart cs') = slice (yearsAll d) (fromIdx sl) (toIdx sl + 1)"
      "map data (line_datasets (lineChart cs')) =
         map (\<lambda>ds. slice (data ds) (fromIdx sl) (toIdx sl + 1)) (lineDatasetsAll d)"
      "map label (line_datasets (lineChart cs')) = map label (lineDatasetsAll d)" by blast
  have 1: "length (line_datasets (lineChart cs')) = length (lineDatasetsAll d)"
    using cs'(3) by (metis length_map)
  have el: "label (line_datasets (lineChart cs') ! i) = label (lineDatasetsAll d ! i)
      \<and> data (line_datasets (lineChart cs') ! i)
          = slice (data (lineDatasetsAll d ! i)) (fromIdx sl) (toIdx sl + 1)"
    if "i < length (lineDatasetsAll d)" for i
  proof -
    have "map label (line_datasets (lineChart cs')) ! i = map label (lineDatasetsAll d) ! i"
      by (simp only: cs'(4))
    moreover have "map data (line_datasets (lineChart cs')) ! i
        = map (\<lambda>ds. slice (data ds) (fromIdx sl) (toIdx sl + 1)) (lineDatasetsAll d) ! i"
      by (simp only: cs'(3))
    ultimately show ?thesis using that 1 by simp
  qed
  have len: "nat (toIdx sl) < length (data (lineDatasetsAll d ! i))"
    if "i < length (lineDatasetsAll d)" for i
    using that assms(2) b(3) by simp
  have 2: "length (data s) = ?n" if "s \<in> set (line_datasets (lineChart cs'))" for s
  proof -
    from that obtain i where i: "i < length (line_datasets (lineChart cs'))"
      "s = line_datasets (lineChart cs') ! i" by (auto simp: in_set_conv_nth)
    then have "i < length (lineDatasetsAll d)" using 1 by simp
    with el[of i] len[of i] i(2) b show ?thesis by (simp add: length_slice_inclusive)
  qed
  have 3: "length (line_labels (lineChart cs')) = ?n"
    unfolding cs'(2) using b by (intro length_slice_inclusive)
  have 4: "label (line_datasets (lineChart cs') ! i) = label (lineDatasetsAll d ! i)
         \<and> length (data (line_datasets (lineChart cs') ! i)) = ?n
         \<and> (\<forall>k<?n. data (line_datasets (lineChart cs') ! i) ! k
                 = data (lineDatasetsAll d ! i) ! (nat (fromIdx sl) + k))"
    if "i < length (lineDatasetsAll d)" for i
    using el[OF that] len[OF that] b
    by (simp add: length_slice_inclusive nth_slice_inclusive)
  have 5: "line_labels (lineChart cs') ! k = yearsAll d ! (nat (fromIdx sl) + k)" if "k < ?n" for k
    unfolding cs'(2) using b that by (intro nth_slice_inclusive)
  from cs'(1) 1 2 3 4 5 p show ?thesis by blast
qed

text \<open>
  Witness for C6: the range 2021 to 2022 of the scenario shows the labels 2021 and 2022,
  and of each group the second and third value.
\<close>

theorem applyRange_slices_inclusively_witness:
  "sliceByYearRange (yearsAll scenario_page) (Fin 2021) (Fin 2022) = Some \<lparr>fromIdx = 1, toIdx = 2\<rparr>
   \<and> length (data groupA) = length (yearsAll scenario_page)
   \<and> length (data groupB) = length (yearsAll scenario_page)
   \<and> (\<exists>cs'. applyRange scenario_page (Fin 2021) (Fin 2022) blank_charts = Inr cs'
        \<and> line_labels (lineChart cs') = [Fin 2021, Fin 2022]
        \<and> map label (line_datasets (lineChart cs')) = [''A'', ''B'']
        \<and> map data (line_datasets (lineChart cs'))
            = [[JNumber (Fin 92), JNumber (Fin 94)], [JNull, JNumber (Fin 85)]])"
proof -
  have s: "sliceByYearRange (yearsAll scenario_page) (Fin 2021) (Fin 2022)
      = Some \<lparr>fromIdx = 1, toIdx = 2\<rparr>"
    by (simp add: sliceByYearRange_def indexOf_def strict_equals_def)
  have l: "\<forall>ds\<in>set (lineDatasetsAll scenario_page). length (data ds) = length (yearsAll scenario_page)"
    by simp
  have two: "xs = [xs ! 0, xs ! 1]" if "length xs = 2" for xs :: "'a list"
    using that by (auto simp: list_eq_iff_nth_eq less_Suc_eq numeral_2_eq_2)
  from applyRange_slices_inclusively[OF s l, of blank_charts] obtain cs' where
    c: "applyRange scenario_page (Fin 2021) (Fin 2022) blank_charts = Inr cs'"
       "length (line_datasets (lineChart cs')) = 2"
       "length (line_labels (lineChart cs')) = 2"
       "\<forall>i<2. label (line_datasets (lineChart cs') ! i) = label ([groupA, groupB] ! i)
         \<and> length (data (line_datasets (lineChart cs') ! i)) = 2
         \<and> (\<forall>k<2. data (line_datasets (lineChart cs') ! i) ! k = data ([groupA, groupB] ! i) ! (1 + k))"
       "\<forall>k<2. line_labels (lineChart cs') ! k = scenario_years ! (1 + k)"
    by auto
  have lab: "line_labels (lineChart cs') = [Fin 2021, Fin 2022]"
    using two[OF c(3)] c(5) by simp
  have d0: "data (line_datasets (lineChart cs') ! 0) = [JNumber (Fin 92), JNumber (Fin 94)]"
    using two[of "data (line_datasets (lineChart cs') ! 0)"] c(4) by simp
  have d1: "data (line_datasets (lineChart cs') ! 1) = [JNull, JNumber (Fin 85)]"
    using two[of "data (line_datasets (lineChart cs') ! 1)"] c(4) by simp
  have l0: "label (line_datasets (lineChart cs') ! 0) = ''A''"
    "label (line_datasets (lineChart cs') ! 1) = ''B''" using c(4) by simp_all
  have "line_datasets (lineChart cs')
      = [line_datasets (lineChart cs') ! 0, line_datasets (lineChart cs') ! 1]"
    using c(2) by (rule two)
  then have "map label (line_datasets (lineChart cs')) = [''A'', ''B'']"
    "map data (line_datasets (lineChart cs'))
            = [[JNumber (Fin 92), JNumber (Fin 94)], [JNull, JNumber (Fin 85)]]"
    using l0 d0 d1 by (metis list.simps(8,9))+
  with c(1) lab s show ?thesis by simp
qed

text \<open>
  Claim C9. Every entry of the ranked list has a stability that is a finite number, so
  the rounding \<open>Number(r.stability.toFixed(3))\<close> of the bar view is defined on every
  ranked entry, and \<open>applyRange\<close> never throws.
\<close>

theorem ranked_stability_finite_and_rounding_defined:
  "(\<forall>r\<in>set (ranked (computeStabilityFromLineDatasets years datasets)).
      \<exists>v. stability r = Some (Fin v))
   \<and> (\<exists>vs. map_throwing (\<lambda>r. toFixed3_of (stability r))
              (ranked (computeStabilityFromLineDatasets years datasets)) = Inr vs)
   \<and> (\<exists>cs'. applyRange d fromYear toYear cs = Inr cs')"
  using ranked_finite_stability[of _ years datasets] bar_values_defined[of years datasets]
    applyRange_returns[of d fromYear toYear cs]
  unfolding finite_stability_def by blast

text \<open>
  Witness for C9: the ranking of the groups A and C holds the one entry of stability
  46, and \<open>applyRange\<close> over the full range of the scenario returns.
\<close>

theorem ranked_stability_finite_and_rounding_defined_witness:
  "map stability (ranked (computeStabilityFromLineDatasets scenario_years [groupA, groupC]))
     = [Some (Fin 46)]
   \<and> list_all (\<lambda>r. \<exists>v. stability r = Some (Fin v))
       (ranked (computeStabilityFromLineDatasets scenario_years [groupA, groupC]))
   \<and> (\<exists>vs. map_throwing (\<lambda>r. toFixed3_of (stability r))
              (ranked (computeStabilityFromLineDatasets scenario_years [groupA, groupC])) = Inr vs)
   \<and> (\<exists>cs'. applyRange scenario_page (Fin 2020) (Fin 2022) blank_charts = Inr cs')"
proof -
  have "map stability (ranked (computeStabilityFromLineDatasets scenario_years [groupA, groupC]))
     = [Some (Fin 46)]"
    unfolding ranked_unfold list.map groupA_stats groupC_stats
    by (simp add: ranking_eval)
  with ranked_stability_finite_and_rounding_defined[of scenario_years "[groupA, groupC]"
      scenario_page "Fin 2020" "Fin 2022" blank_charts]
  show ?thesis by (simp add: list_all_iff)
qed

end
